theory Spec2Isabelle
  imports Complex_Main "HOL-Library.Word"
begin

section \<open>The clock of time\_ctrl.c\<close>

text \<open>
  All times are in milliseconds. Every field of the C struct \<open>time_system\<close> that
  time\_ctrl.c reads or writes is a \<open>u32\<close> or a \<open>bool\<close>; \<open>u32\<close> arithmetic wraps
  around, which is what \<open>32 word\<close> does.
\<close>

type_synonym u32 = "32 word"

record time_system =
  can_timeout :: bool
  timed_out :: bool
  main_time :: u32
  byo_yomi_time :: u32
  byo_yomi_stones :: u32
  byo_yomi_periods :: u32
  main_time_remaining :: u32
  byo_yomi_time_remaining :: u32
  byo_yomi_stones_remaining :: u32
  byo_yomi_periods_remaining :: u32

text \<open>A zero-initialised struct, the storage the presets are run on in the examples.\<close>

definition zero_time_system :: time_system where
  "zero_time_system =
     \<lparr>can_timeout = False, timed_out = False, main_time = 0, byo_yomi_time = 0,
      byo_yomi_stones = 0, byo_yomi_periods = 0, main_time_remaining = 0,
      byo_yomi_time_remaining = 0, byo_yomi_stones_remaining = 0,
      byo_yomi_periods_remaining = 0\<rparr>"

subsection \<open>The three presets and the reset\<close>

definition set_time_system :: "time_system \<Rightarrow> u32 \<Rightarrow> u32 \<Rightarrow> u32 \<Rightarrow> u32 \<Rightarrow> time_system" where
  "set_time_system ts mt bt bs bp =
     ts\<lparr>can_timeout := True, timed_out := False,
        main_time := mt, main_time_remaining := mt,
        byo_yomi_time := bt, byo_yomi_time_remaining := bt,
        byo_yomi_stones := bs, byo_yomi_stones_remaining := bs,
        byo_yomi_periods := bp, byo_yomi_periods_remaining := bp\<rparr>"

definition set_sudden_death :: "time_system \<Rightarrow> u32 \<Rightarrow> time_system" where
  "set_sudden_death ts mt =
     ts\<lparr>can_timeout := True, timed_out := False,
        main_time := mt, main_time_remaining := mt,
        byo_yomi_time := 0, byo_yomi_time_remaining := 0,
        byo_yomi_stones := 0, byo_yomi_stones_remaining := 0,
        byo_yomi_periods := 0, byo_yomi_periods_remaining := 0\<rparr>"

definition set_time_per_turn :: "time_system \<Rightarrow> u32 \<Rightarrow> time_system" where
  "set_time_per_turn ts time_per_turn =
     ts\<lparr>can_timeout := False, timed_out := False,
        main_time := 0, main_time_remaining := 0,
        byo_yomi_time := time_per_turn, byo_yomi_time_remaining := time_per_turn,
        byo_yomi_stones := 1, byo_yomi_stones_remaining := 1,
        byo_yomi_periods := 1, byo_yomi_periods_remaining := 1\<rparr>"

definition reset_clock :: "time_system \<Rightarrow> time_system" where
  "reset_clock ts =
     ts\<lparr>timed_out := False,
        main_time_remaining := main_time ts,
        byo_yomi_time_remaining := byo_yomi_time ts,
        byo_yomi_stones_remaining := byo_yomi_stones ts,
        byo_yomi_periods_remaining := byo_yomi_periods ts\<rparr>"

subsection \<open>Advancing the clock\<close>

text \<open>
  The \<open>while(milliseconds > 0)\<close> loop of \<open>advance_clock\<close>, with the local flag
  \<open>consumed_byo_yomi_stone\<close> as third argument. The decrements of the stone and period
  counters are \<open>u32\<close> decrements: at 0 they wrap to \<open>2^32 - 1\<close>.
\<close>

function advance_clock_loop :: "time_system \<Rightarrow> u32 \<Rightarrow> bool \<Rightarrow> time_system" where
  "advance_clock_loop ts milliseconds consumed_byo_yomi_stone =
     (if milliseconds = 0 then ts
      else if main_time_remaining ts = 0 then
        (let byo_time_elapsed = min (byo_yomi_time_remaining ts) milliseconds;
             ts1 = ts\<lparr>byo_yomi_time_remaining := byo_yomi_time_remaining ts - byo_time_elapsed\<rparr>;
             ms1 = milliseconds - byo_time_elapsed;
             ts2 = (if \<not> consumed_byo_yomi_stone
                    then ts1\<lparr>byo_yomi_stones_remaining := byo_yomi_stones_remaining ts1 - 1\<rparr>
                    else ts1)
         in if byo_yomi_time_remaining ts2 = 0 then
              (let ts3 = ts2\<lparr>byo_yomi_periods_remaining := byo_yomi_periods_remaining ts2 - 1\<rparr>
               in if byo_yomi_periods_remaining ts3 = 0 then ts3\<lparr>timed_out := True\<rparr>
                  else advance_clock_loop
                         (ts3\<lparr>byo_yomi_stones_remaining := byo_yomi_stones ts3,
                              byo_yomi_time_remaining := byo_yomi_time ts3\<rparr>) ms1 True)
            else if byo_yomi_stones_remaining ts2 = 0 then
              advance_clock_loop
                (ts2\<lparr>byo_yomi_stones_remaining := byo_yomi_stones ts2,
                     byo_yomi_time_remaining := byo_yomi_time ts2\<rparr>) ms1 True
            else advance_clock_loop ts2 ms1 True)
      else
        (let main_time_elapsed = min (main_time_remaining ts) milliseconds
         in advance_clock_loop
              (ts\<lparr>main_time_remaining := main_time_remaining ts - main_time_elapsed\<rparr>)
              (milliseconds - main_time_elapsed) consumed_byo_yomi_stone))"
  by pat_completeness auto

text \<open>
  The loop ends: every pass either consumes elapsed time, or (when the period has no time
  left) moves the period counter one step nearer to the value 1, at which the next
  decrement reaches 0 and returns.
\<close>

lemma unat_sub_min_less:
  fixes a ms :: u32
  assumes "a \<noteq> 0" "ms \<noteq> 0"
  shows "unat (ms - min a ms) < unat ms"
proof -
  have le: "min a ms \<le> ms" by simp
  have pos: "0 < unat (min a ms)"
    using assms by (simp add: min_def unat_gt_0)
  have "unat (ms - min a ms) = unat ms - unat (min a ms)"
    using le by (simp add: unat_sub)
  moreover have "unat (min a ms) \<le> unat ms"
    using le by (simp add: word_le_nat_alt)
  ultimately show ?thesis using pos by linarith
qed

lemma unat_pred_less:
  fixes p :: u32
  assumes "p \<noteq> 0"
  shows "unat (p - 1) < unat p"
  using assms by (simp add: unat_minus_one unat_gt_0)

lemma overtime_step_decreases:
  fixes a ms p :: u32
  assumes "ms \<noteq> 0" "p \<noteq> 1"
  shows "unat (ms - min a ms) < unat ms \<or>
         unat (ms - min a ms) = unat ms \<and> unat (p - 2) < unat (p - 1)"
proof (cases "a = 0")
  case True
  from assms(2) have "p - 1 \<noteq> 0" by simp
  from unat_pred_less [OF this] True show ?thesis by simp
next
  case False
  then show ?thesis using assms(1) by (simp add: unat_sub_min_less)
qed

lemma overtime_time_left_decreases:
  fixes a ms :: u32
  assumes "a - min a ms \<noteq> 0" "ms \<noteq> 0"
  shows "unat (ms - min a ms) < unat ms"
proof -
  from assms(1) have "a \<noteq> 0" by auto
  then show ?thesis using assms(2) by (rule unat_sub_min_less)
qed

termination advance_clock_loop
proof (relation "measures [\<lambda>(ts, ms, c). unat ms,
                           \<lambda>(ts, ms, c). unat (byo_yomi_periods_remaining ts - 1)]",
       goal_cases)
  case 1
  show ?case by simp
next
  case (2 ts ms c x xa xb xc xd)
  from 2 have p: "byo_yomi_periods_remaining ts \<noteq> 1"
    and xb: "xb = ms - min (byo_yomi_time_remaining ts) ms"
    and xd: "byo_yomi_periods_remaining xd = byo_yomi_periods_remaining ts - 1"
    by (cases c; simp)+
  from overtime_step_decreases [OF \<open>ms \<noteq> 0\<close> p, of "byo_yomi_time_remaining ts"]
  show ?case by (simp add: xb xd)
next
  case (3 ts ms c x xa xb xc)
  from 3 have "byo_yomi_time_remaining ts - min (byo_yomi_time_remaining ts) ms \<noteq> 0"
    and xb: "xb = ms - min (byo_yomi_time_remaining ts) ms"
    by (cases c; simp)+
  from overtime_time_left_decreases [OF this(1) \<open>ms \<noteq> 0\<close>]
  show ?case by (simp add: xb)
next
  case (4 ts ms c x xa xb xc)
  from 4 have "byo_yomi_time_remaining ts - min (byo_yomi_time_remaining ts) ms \<noteq> 0"
    and xb: "xb = ms - min (byo_yomi_time_remaining ts) ms"
    by (cases c; simp)+
  from overtime_time_left_decreases [OF this(1) \<open>ms \<noteq> 0\<close>]
  show ?case by (simp add: xb)
next
  case (5 ts ms x)
  then show ?case
    by (simp add: unat_sub_min_less)
qed


declare advance_clock_loop.simps [simp del]

definition advance_clock :: "time_system \<Rightarrow> u32 \<Rightarrow> time_system" where
  "advance_clock ts milliseconds =
     (if \<not> can_timeout ts \<or> timed_out ts then ts
      else advance_clock_loop ts milliseconds False)"

text \<open>The passes of the loop, one equation for each path through its body.\<close>

lemma loop_zero: "advance_clock_loop ts 0 c = ts"
  by (simp add: advance_clock_loop.simps)

lemma loop_main:
  assumes "ms \<noteq> 0" "main_time_remaining ts \<noteq> 0"
  shows "advance_clock_loop ts ms c =
         advance_clock_loop
           (ts\<lparr>main_time_remaining := main_time_remaining ts - min (main_time_remaining ts) ms\<rparr>)
           (ms - min (main_time_remaining ts) ms) c"
  using assms by (subst advance_clock_loop.simps) (simp add: Let_def)

lemma loop_timeout:
  assumes "ms \<noteq> 0" "main_time_remaining ts = 0" "byo_yomi_time_remaining ts \<le> ms"
    "byo_yomi_periods_remaining ts = 1"
  shows "advance_clock_loop ts ms c =
         ts\<lparr>byo_yomi_time_remaining := 0,
            byo_yomi_stones_remaining :=
              (if c then byo_yomi_stones_remaining ts else byo_yomi_stones_remaining ts - 1),
            byo_yomi_periods_remaining := 0, timed_out := True\<rparr>"
  using assms by (subst advance_clock_loop.simps) (simp add: Let_def min_def)

lemma loop_rollover:
  assumes "ms \<noteq> 0" "main_time_remaining ts = 0" "byo_yomi_time_remaining ts \<le> ms"
    "byo_yomi_periods_remaining ts \<noteq> 1"
  shows "advance_clock_loop ts ms c =
         advance_clock_loop
           (ts\<lparr>byo_yomi_periods_remaining := byo_yomi_periods_remaining ts - 1,
               byo_yomi_stones_remaining := byo_yomi_stones ts,
               byo_yomi_time_remaining := byo_yomi_time ts\<rparr>)
           (ms - byo_yomi_time_remaining ts) True"
  using assms by (subst advance_clock_loop.simps) (simp add: Let_def min_def)

lemma loop_within_period:
  assumes "ms \<noteq> 0" "main_time_remaining ts = 0" "ms < byo_yomi_time_remaining ts"
  shows "advance_clock_loop ts ms c =
         (if (if c then byo_yomi_stones_remaining ts else byo_yomi_stones_remaining ts - 1) = 0
          then ts\<lparr>byo_yomi_time_remaining := byo_yomi_time ts,
                  byo_yomi_stones_remaining := byo_yomi_stones ts\<rparr>
          else ts\<lparr>byo_yomi_time_remaining := byo_yomi_time_remaining ts - ms,
                  byo_yomi_stones_remaining :=
                    (if c then byo_yomi_stones_remaining ts else byo_yomi_stones_remaining ts - 1)\<rparr>)"
proof -
  from assms(3) have m: "min (byo_yomi_time_remaining ts) ms = ms" by simp
  from assms(3) have nz: "byo_yomi_time_remaining ts - ms \<noteq> 0" by simp
  show ?thesis
    using assms(1,2) nz
    by (subst advance_clock_loop.simps) (simp add: Let_def m loop_zero)
qed

lemma advance_clock_loop_induct [case_names zero main timeout rollover within_period]:
  fixes P :: "time_system \<Rightarrow> u32 \<Rightarrow> bool \<Rightarrow> bool"
  assumes zero: "\<And>ts c. P ts 0 c"
    and main: "\<And>ts ms c. ms \<noteq> 0 \<Longrightarrow> main_time_remaining ts \<noteq> 0 \<Longrightarrow>
        P (ts\<lparr>main_time_remaining := main_time_remaining ts - min (main_time_remaining ts) ms\<rparr>)
          (ms - min (main_time_remaining ts) ms) c \<Longrightarrow> P ts ms c"
    and timeout: "\<And>ts ms c. ms \<noteq> 0 \<Longrightarrow> main_time_remaining ts = 0 \<Longrightarrow>
        byo_yomi_time_remaining ts \<le> ms \<Longrightarrow> byo_yomi_periods_remaining ts = 1 \<Longrightarrow> P ts ms c"
    and rollover: "\<And>ts ms c. ms \<noteq> 0 \<Longrightarrow> main_time_remaining ts = 0 \<Longrightarrow>
        byo_yomi_time_remaining ts \<le> ms \<Longrightarrow> byo_yomi_periods_remaining ts \<noteq> 1 \<Longrightarrow>
        P (ts\<lparr>byo_yomi_periods_remaining := byo_yomi_periods_remaining ts - 1,
              byo_yomi_stones_remaining := byo_yomi_stones ts,
              byo_yomi_time_remaining := byo_yomi_time ts\<rparr>)
          (ms - byo_yomi_time_remaining ts) True \<Longrightarrow> P ts ms c"
    and within_period: "\<And>ts ms c. ms \<noteq> 0 \<Longrightarrow> main_time_remaining ts = 0 \<Longrightarrow>
        ms < byo_yomi_time_remaining ts \<Longrightarrow> P ts ms c"
  shows "P ts ms c"
proof (induction ts ms c rule: advance_clock_loop.induct)
  case (1 ts ms c)
  show ?case
  proof (cases "ms = 0")
    case True
    then show ?thesis by (simp add: zero)
  next
    case ms: False
    show ?thesis
    proof (cases "main_time_remaining ts = 0")
      case False
      from "1.IH"(4) [OF ms False refl] show ?thesis by (rule main [OF ms False])
    next
      case mt: True
      show ?thesis
      proof (cases "byo_yomi_time_remaining ts \<le> ms")
        case False
        then show ?thesis using ms mt by (intro within_period) simp_all
      next
        case le: True
        show ?thesis
        proof (cases "byo_yomi_periods_remaining ts = 1")
          case True
          then show ?thesis using ms mt le by (intro timeout)
        next
          case False
          have "P ((if \<not> c
                    then ts\<lparr>byo_yomi_time_remaining := byo_yomi_time_remaining ts - min (byo_yomi_time_remaining ts) ms\<rparr>
                           \<lparr>byo_yomi_stones_remaining := byo_yomi_stones_remaining (ts\<lparr>byo_yomi_time_remaining := byo_yomi_time_remaining ts - min (byo_yomi_time_remaining ts) ms\<rparr>) - 1\<rparr>
                    else ts\<lparr>byo_yomi_time_remaining := byo_yomi_time_remaining ts - min (byo_yomi_time_remaining ts) ms\<rparr>)
                   \<lparr>byo_yomi_periods_remaining := byo_yomi_periods_remaining ts - 1,
                     byo_yomi_stones_remaining := byo_yomi_stones ts,
                     byo_yomi_time_remaining := byo_yomi_time ts\<rparr>)
                  (ms - min (byo_yomi_time_remaining ts) ms) True"
            using ms mt le False
            by (intro "1.IH"(1) [OF ms mt refl refl refl refl _ refl, THEN back_subst [where P = "\<lambda>x. P x _ _"]])
               (auto simp: min_def)
          then have "P (ts\<lparr>byo_yomi_periods_remaining := byo_yomi_periods_remaining ts - 1,
                          byo_yomi_stones_remaining := byo_yomi_stones ts,
                          byo_yomi_time_remaining := byo_yomi_time ts\<rparr>)
                       (ms - byo_yomi_time_remaining ts) True"
            using le by (cases c) (simp_all add: min_def)
          then show ?thesis by (rule rollover [OF ms mt le False])
        qed
      qed
    qed
  qed
qed


subsection \<open>Conservation of the remaining budgets\<close>

definition within_configured :: "time_system \<Rightarrow> bool" where
  "within_configured ts \<longleftrightarrow>
     main_time_remaining ts \<le> main_time ts \<and>
     byo_yomi_time_remaining ts \<le> byo_yomi_time ts \<and>
     byo_yomi_stones_remaining ts \<le> byo_yomi_stones ts \<and>
     byo_yomi_periods_remaining ts \<le> byo_yomi_periods ts"

definition same_configuration :: "time_system \<Rightarrow> time_system \<Rightarrow> bool" where
  "same_configuration ts ts' \<longleftrightarrow>
     can_timeout ts' = can_timeout ts \<and> main_time ts' = main_time ts \<and>
     byo_yomi_time ts' = byo_yomi_time ts \<and> byo_yomi_stones ts' = byo_yomi_stones ts \<and>
     byo_yomi_periods ts' = byo_yomi_periods ts"

definition quota_clock :: "time_system \<Rightarrow> bool" where
  "quota_clock ts \<longleftrightarrow>
     byo_yomi_stones ts \<noteq> 0 \<and> byo_yomi_periods ts \<noteq> 0 \<and> within_configured ts \<and>
     (\<not> timed_out ts \<longrightarrow> byo_yomi_stones_remaining ts \<noteq> 0 \<and> byo_yomi_periods_remaining ts \<noteq> 0)"

lemma word_sub_min_le:
  fixes a b ms :: u32
  assumes "a \<le> b"
  shows "a - min a ms \<le> b"
proof -
  have "a - min a ms \<le> a" by (rule word_sub_le) simp
  then show ?thesis using assms by (rule order_trans)
qed

lemma word_sub_le_trans:
  fixes a b ms :: u32
  assumes "a \<le> b" "ms \<le> a"
  shows "a - ms \<le> b"
proof -
  have "a - ms \<le> a" using assms(2) by (rule word_sub_le)
  then show ?thesis using assms(1) by (rule order_trans)
qed

lemma word_pred_le:
  fixes a b :: u32
  assumes "a \<le> b"  "a \<noteq> 0"
  shows "a - 1 \<le> b"
proof -
  have "1 \<le> a" using assms(2) by (simp add: word_le_nat_alt unat_gt_0 Suc_le_eq)
  then have "a - 1 \<le> a" by (rule word_sub_le)
  then show ?thesis using assms(1) by (rule order_trans)
qed

lemma advance_clock_loop_same_configuration:
  "same_configuration ts (advance_clock_loop ts ms c)"
proof (induction ts ms c rule: advance_clock_loop_induct)
  case (zero ts c)
  show ?case by (simp add: loop_zero same_configuration_def)
next
  case (main ts ms c)
  then show ?case by (simp add: loop_main same_configuration_def)
next
  case (timeout ts ms c)
  then show ?case by (simp add: loop_timeout same_configuration_def)
next
  case (rollover ts ms c)
  then show ?case by (simp add: loop_rollover same_configuration_def)
next
  case (within_period ts ms c)
  then show ?case by (simp add: loop_within_period same_configuration_def)
qed

lemma advance_clock_loop_quota:
  "quota_clock ts \<Longrightarrow> \<not> timed_out ts \<Longrightarrow> quota_clock (advance_clock_loop ts ms c)"
proof (induction ts ms c rule: advance_clock_loop_induct)
  case (zero ts c)
  then show ?case by (simp add: loop_zero)
next
  case (main ts ms c)
  from main.prems have "quota_clock (ts\<lparr>main_time_remaining :=
      main_time_remaining ts - min (main_time_remaining ts) ms\<rparr>)"
    by (simp add: quota_clock_def within_configured_def word_sub_min_le)
  with main show ?case by (simp add: loop_main)
next
  case (timeout ts ms c)
  then show ?case
    by (simp add: loop_timeout quota_clock_def within_configured_def word_pred_le)
next
  case (rollover ts ms c)
  from rollover.prems rollover.hyps(4)
  have "quota_clock (ts\<lparr>byo_yomi_periods_remaining := byo_yomi_periods_remaining ts - 1,
              byo_yomi_stones_remaining := byo_yomi_stones ts,
              byo_yomi_time_remaining := byo_yomi_time ts\<rparr>)"
    by (simp add: quota_clock_def within_configured_def word_pred_le)
  with rollover show ?case by (simp add: loop_rollover)
next
  case (within_period ts ms c)
  then show ?case
    by (simp add: loop_within_period quota_clock_def within_configured_def word_pred_le
        word_sub_le_trans less_imp_le)
qed


definition no_overtime_clock :: "time_system \<Rightarrow> bool" where
  "no_overtime_clock ts \<longleftrightarrow>
     byo_yomi_time ts = 0 \<and> byo_yomi_periods ts = 0 \<and>
     main_time_remaining ts \<le> main_time ts \<and> byo_yomi_time_remaining ts = 0 \<and>
     byo_yomi_stones_remaining ts = byo_yomi_stones ts \<and> byo_yomi_periods_remaining ts = 0"

lemma advance_clock_loop_no_overtime:
  assumes "byo_yomi_time ts = 0" "byo_yomi_periods ts = 0"
    "main_time_remaining ts \<le> main_time ts" "byo_yomi_time_remaining ts = 0"
    "byo_yomi_stones_remaining ts = byo_yomi_stones ts"
    "\<not> c \<longrightarrow> byo_yomi_periods_remaining ts = 0"
    "c \<longrightarrow> ms \<noteq> 0 \<and> main_time_remaining ts = 0"
  shows "no_overtime_clock (advance_clock_loop ts ms c)"
  using assms
proof (induction ts ms c rule: advance_clock_loop_induct)
  case (zero ts c)
  then show ?case by (simp add: loop_zero no_overtime_clock_def)
next
  case (main ts ms c)
  from main.hyps main.prems have "\<not> c" by auto
  with main.prems
  have "no_overtime_clock
     (advance_clock_loop
       (ts\<lparr>main_time_remaining := main_time_remaining ts - min (main_time_remaining ts) ms\<rparr>)
       (ms - min (main_time_remaining ts) ms) c)"
    by (intro main.IH) (simp_all add: word_sub_min_le)
  then show ?case by (simp add: loop_main [OF main.hyps(1,2)])
next
  case (timeout ts ms c)
  from timeout.hyps(4) timeout.prems(6) have c by auto
  with timeout show ?case by (simp add: loop_timeout no_overtime_clock_def)
next
  case (rollover ts ms c)
  have "no_overtime_clock
     (advance_clock_loop
       (ts\<lparr>byo_yomi_periods_remaining := byo_yomi_periods_remaining ts - 1,
           byo_yomi_stones_remaining := byo_yomi_stones ts,
           byo_yomi_time_remaining := byo_yomi_time ts\<rparr>)
       (ms - byo_yomi_time_remaining ts) True)"
    using rollover.hyps rollover.prems by (intro rollover.IH) simp_all
  then show ?case by (simp add: loop_rollover [OF rollover.hyps])
next
  case (within_period ts ms c)
  then show ?case by simp
qed

lemma advance_clock_quota:
  assumes "quota_clock ts"
  shows "quota_clock (advance_clock ts ms)"
  using assms by (simp add: advance_clock_def advance_clock_loop_quota)

lemma advance_clock_no_overtime:
  assumes "no_overtime_clock ts"
  shows "no_overtime_clock (advance_clock ts ms)"
proof (cases "\<not> can_timeout ts \<or> timed_out ts")
  case True
  then show ?thesis using assms by (auto simp add: advance_clock_def)
next
  case False
  have "no_overtime_clock (advance_clock_loop ts ms False)"
    using assms by (intro advance_clock_loop_no_overtime) (simp_all add: no_overtime_clock_def)
  then show ?thesis using False by (simp add: advance_clock_def)
qed

lemma advance_clock_same_configuration:
  "same_configuration ts (advance_clock ts ms)"
  by (simp add: advance_clock_def advance_clock_loop_same_configuration)
     (simp add: same_configuration_def)

lemma foldl_advance_clock_quota:
  "quota_clock ts \<Longrightarrow> quota_clock (foldl advance_clock ts elapsed)"
  by (induction elapsed arbitrary: ts) (simp_all add: advance_clock_quota)

lemma foldl_advance_clock_no_overtime:
  "no_overtime_clock ts \<Longrightarrow> no_overtime_clock (foldl advance_clock ts elapsed)"
  by (induction elapsed arbitrary: ts) (simp_all add: advance_clock_no_overtime)

lemma same_configuration_trans:
  "same_configuration a b \<Longrightarrow> same_configuration b c \<Longrightarrow> same_configuration a c"
  by (simp add: same_configuration_def)

lemma foldl_advance_clock_same_configuration:
  "same_configuration ts (foldl advance_clock ts elapsed)"
proof (induction elapsed arbitrary: ts)
  case Nil
  show ?case by (simp add: same_configuration_def)
next
  case (Cons ms elapsed)
  from advance_clock_same_configuration Cons.IH show ?case
    unfolding foldl_Cons by (rule same_configuration_trans)
qed

lemma quota_clock_within: "quota_clock ts \<Longrightarrow> within_configured ts"
  by (simp add: quota_clock_def)

lemma no_overtime_clock_within: "no_overtime_clock ts \<Longrightarrow> within_configured ts"
  by (simp add: no_overtime_clock_def within_configured_def)

text \<open>
  Claim C1, as amended. For a clock built by the sudden-death preset, by the fixed
  time-per-turn preset, or by the byo-yomi preset with at least one stone and at least one
  period, after any sequence of \<open>advance_clock\<close> calls every \<open>*_remaining\<close> field is
  at most its configured counterpart (and, being unsigned, at least 0), and the configured
  fields are the ones the preset wrote.
\<close>

theorem advance_clock_conservation:
  assumes "ts0 = set_sudden_death ts mt \<or> ts0 = set_time_per_turn ts tpt \<or>
           ts0 = set_time_system ts mt bt bs bp \<and> bs \<noteq> 0 \<and> bp \<noteq> 0"
  shows "within_configured (foldl advance_clock ts0 elapsed) \<and>
         same_configuration ts0 (foldl advance_clock ts0 elapsed)"
proof -
  have "quota_clock ts0 \<or> no_overtime_clock ts0"
    using assms
    by (auto simp: quota_clock_def no_overtime_clock_def within_configured_def
        set_sudden_death_def set_time_per_turn_def set_time_system_def)
  then have "within_configured (foldl advance_clock ts0 elapsed)"
    by (auto intro: quota_clock_within no_overtime_clock_within
        foldl_advance_clock_quota foldl_advance_clock_no_overtime)
  then show ?thesis by (simp add: foldl_advance_clock_same_configuration)
qed

theorem advance_clock_conservation_witness:
  "within_configured
     (foldl advance_clock (set_time_system zero_time_system 60000 30000 5 2) [45000, 20000, 40000]) \<and>
   byo_yomi_periods_remaining
     (foldl advance_clock (set_time_system zero_time_system 60000 30000 5 2) [45000, 20000, 40000]) = 1"
proof -
  have "(5::u32) \<noteq> 0" "(2::u32) \<noteq> 0" by simp_all
  with advance_clock_conservation
    [of "set_time_system zero_time_system 60000 30000 5 2" zero_time_system 60000 0 30000 5 2
      "[45000, 20000, 40000]"]
  have "within_configured
     (foldl advance_clock (set_time_system zero_time_system 60000 30000 5 2) [45000, 20000, 40000])"
    by simp
  moreover have "byo_yomi_periods_remaining
     (foldl advance_clock (set_time_system zero_time_system 60000 30000 5 2) [45000, 20000, 40000]) = 1"
    by code_simp
  ultimately show ?thesis by simp
qed

text \<open>
  The byo-yomi preset takes any four values. With zero periods and a period time, the
  first exhausted period decrements \<open>byo_yomi_periods_remaining\<close> from 0 to
  \<open>2^32 - 1\<close>, above the configured 0.
\<close>

theorem zero_periods_counterexample:
  "\<not> within_configured (advance_clock (set_time_system zero_time_system 0 30000 1 0) 30000)"
  by code_simp

subsection \<open>The timeout scenario\<close>




subsection \<open>One call across two period rollovers\<close>

text \<open>
  Once the per-call flag is set no pass decrements the stone counter any more: the counter
  keeps its value or is replenished to the configured quota.
\<close>

lemma advance_clock_loop_flag_set:
  "byo_yomi_stones_remaining (advance_clock_loop ts ms True) = byo_yomi_stones_remaining ts \<or>
   byo_yomi_stones_remaining (advance_clock_loop ts ms True) = byo_yomi_stones ts"
proof -
  have "c \<longrightarrow> 
   byo_yomi_stones_remaining (advance_clock_loop ts ms c) = byo_yomi_stones_remaining ts \<or>
   byo_yomi_stones_remaining (advance_clock_loop ts ms c) = byo_yomi_stones ts" for c
  proof (induction ts ms c rule: advance_clock_loop_induct)
    case (zero ts c)
    show ?case by (simp add: loop_zero)
  next
    case (main ts ms c)
    then show ?case by (simp add: loop_main)
  next
    case (timeout ts ms c)
    then show ?case by (simp add: loop_timeout)
  next
    case (rollover ts ms c)
    then show ?case by (simp add: loop_rollover)
  next
    case (within_period ts ms c)
    then show ?case by (simp add: loop_within_period)
  qed
  then show ?thesis by simp
qed

text \<open>
  The first pass of a call in overtime charges one stone and sets the flag: it does what a
  pass with the flag set does from the clock with one stone less.
\<close>

lemma first_overtime_pass_charges:
  assumes "ms \<noteq> 0" "main_time_remaining ts = 0"
  shows "advance_clock_loop ts ms False =
         advance_clock_loop
           (ts\<lparr>byo_yomi_stones_remaining := byo_yomi_stones_remaining ts - 1\<rparr>) ms True"
proof (cases "byo_yomi_time_remaining ts \<le> ms")
  case True
  show ?thesis
  proof (cases "byo_yomi_periods_remaining ts = 1")
    case p: True
    show ?thesis using assms True p by (simp add: loop_timeout)
  next
    case p: False
    show ?thesis using assms True p by (simp add: loop_rollover)
  qed
next
  case False
  then have "ms < byo_yomi_time_remaining ts" by simp
  then show ?thesis using assms by (simp add: loop_within_period)
qed

text \<open>A call that uses up the main time goes on from the clock without main time.\<close>

lemma main_time_pass:
  assumes "main_time_remaining ts \<le> ms"
  shows "advance_clock_loop ts ms c =
         advance_clock_loop (ts\<lparr>main_time_remaining := 0\<rparr>) (ms - main_time_remaining ts) c"
proof (cases "main_time_remaining ts = 0")
  case True
  then have eq: "ts\<lparr>main_time_remaining := 0\<rparr> = ts" by (cases ts) simp
  show ?thesis by (simp only: eq True diff_zero)
next
  case False
  with assms have "ms \<noteq> 0" by auto
  from loop_main [OF this False, of c] assms show ?thesis by (simp add: min_def)
qed

text \<open>
  Claim C3, as amended. A call charges one stone on its first overtime consumption and
  none after it: in overtime, a call with the flag unset does what a call with the flag
  set does from the clock with \<open>byo_yomi_stones_remaining\<close> one lower, and with the flag
  set the counter is never decremented, only kept or replenished to the configured quota.
  The charge shows when the call stays within the period: the counter is then one lower
  (unless it was 1 and the quota is replenished). When the elapsed time uses up the main
  time left, the current period, one whole further period and \<open>r\<close> ms of a third (with
  at least two periods left), both rollovers replenish the quota and so overwrite the
  charge: after the call \<open>byo_yomi_stones_remaining\<close> equals the configured
  \<open>byo_yomi_stones\<close>, which for a clock within its quota is not the value before less
  one; \<open>byo_yomi_periods_remaining\<close> is lower by 2; and the clock has timed out exactly
  if two periods were left.
\<close>

theorem two_rollovers_replenish:
  assumes run: "can_timeout ts" "\<not> timed_out ts"
    and periods: "2 \<le> unat (byo_yomi_periods_remaining ts)"
    and span: "unat ms = unat (main_time_remaining ts) + unat (byo_yomi_time_remaining ts) +
                 unat (byo_yomi_time ts) + r"
      "r < unat (byo_yomi_time ts)"
  shows "(\<forall>ts' ms'. ms' \<noteq> 0 \<and> main_time_remaining ts' = 0 \<longrightarrow>
            advance_clock_loop ts' ms' False =
            advance_clock_loop
              (ts'\<lparr>byo_yomi_stones_remaining := byo_yomi_stones_remaining ts' - 1\<rparr>) ms' True) \<and>
         (\<forall>ts' ms'.
            byo_yomi_stones_remaining (advance_clock_loop ts' ms' True) \<in>
              {byo_yomi_stones_remaining ts', byo_yomi_stones ts'}) \<and>
         (\<forall>ts' ms'. can_timeout ts' \<and> \<not> timed_out ts' \<and> main_time_remaining ts' = 0 \<and>
            ms' \<noteq> 0 \<and> ms' < byo_yomi_time_remaining ts' \<and> byo_yomi_stones_remaining ts' \<noteq> 1 \<longrightarrow>
            byo_yomi_stones_remaining (advance_clock ts' ms') = byo_yomi_stones_remaining ts' - 1) \<and>
         advance_clock ts ms =
           advance_clock_loop
             (ts\<lparr>main_time_remaining := 0,
                 byo_yomi_stones_remaining := byo_yomi_stones_remaining ts - 1\<rparr>)
             (ms - main_time_remaining ts) True \<and>
         byo_yomi_stones_remaining (advance_clock ts ms) = byo_yomi_stones ts \<and>
         byo_yomi_periods_remaining (advance_clock ts ms) = byo_yomi_periods_remaining ts - 2 \<and>
         (timed_out (advance_clock ts ms) \<longleftrightarrow> byo_yomi_periods_remaining ts = 2) \<and>
         (byo_yomi_stones_remaining ts \<noteq> 0 \<and> byo_yomi_stones_remaining ts \<le> byo_yomi_stones ts \<longrightarrow>
            byo_yomi_stones_remaining (advance_clock ts ms) \<noteq> byo_yomi_stones_remaining ts - 1)"
proof -
  let ?c = "ts\<lparr>main_time_remaining := 0,
               byo_yomi_stones_remaining := byo_yomi_stones_remaining ts - 1\<rparr>"
  let ?ms0 = "ms - main_time_remaining ts"
  let ?ts1 = "?c\<lparr>byo_yomi_periods_remaining := byo_yomi_periods_remaining ?c - 1,
                  byo_yomi_stones_remaining := byo_yomi_stones ?c,
                  byo_yomi_time_remaining := byo_yomi_time ?c\<rparr>"
  let ?ms1 = "?ms0 - byo_yomi_time_remaining ts"
  let ?ts2 = "?ts1\<lparr>byo_yomi_periods_remaining := byo_yomi_periods_remaining ?ts1 - 1,
                  byo_yomi_stones_remaining := byo_yomi_stones ?ts1,
                  byo_yomi_time_remaining := byo_yomi_time ?ts1\<rparr>"
  let ?ms2 = "?ms1 - byo_yomi_time ts"
  have charge: "advance_clock_loop ts' ms' False =
            advance_clock_loop
              (ts'\<lparr>byo_yomi_stones_remaining := byo_yomi_stones_remaining ts' - 1\<rparr>) ms' True"
    if "ms' \<noteq> 0 \<and> main_time_remaining ts' = 0" for ts' ms'
    using that by (simp add: first_overtime_pass_charges)
  have flag: "byo_yomi_stones_remaining (advance_clock_loop ts' ms' True) \<in>
      {byo_yomi_stones_remaining ts', byo_yomi_stones ts'}" for ts' ms'
    using advance_clock_loop_flag_set [of ts' ms'] by auto
  have within: "byo_yomi_stones_remaining (advance_clock ts' ms') = byo_yomi_stones_remaining ts' - 1"
    if "can_timeout ts' \<and> \<not> timed_out ts' \<and> main_time_remaining ts' = 0 \<and>
        ms' \<noteq> 0 \<and> ms' < byo_yomi_time_remaining ts' \<and> byo_yomi_stones_remaining ts' \<noteq> 1"
    for ts' ms'
  proof -
    from that have "byo_yomi_stones_remaining ts' - 1 \<noteq> 0" by simp
    with that show ?thesis by (simp add: advance_clock_def loop_within_period)
  qed
  from span have le0: "main_time_remaining ts \<le> ms" by (simp add: word_le_nat_alt)
  from le0 span have u0: "unat ?ms0 = unat (byo_yomi_time_remaining ts) + unat (byo_yomi_time ts) + r"
    by (simp add: unat_sub)
  then have ms0: "?ms0 \<noteq> 0" using span(2) by (auto simp: unat_eq_zero)
  have entry: "advance_clock ts ms = advance_clock_loop ?c ?ms0 True"
  proof -
    have "advance_clock ts ms = advance_clock_loop ts ms False"
      using run by (simp add: advance_clock_def)
    also have "\<dots> = advance_clock_loop (ts\<lparr>main_time_remaining := 0\<rparr>) ?ms0 False"
      using le0 by (rule main_time_pass)
    also have "\<dots> = advance_clock_loop ?c ?ms0 True"
      using first_overtime_pass_charges [OF ms0, of "ts\<lparr>main_time_remaining := 0\<rparr>"] by simp
    finally show ?thesis .
  qed
  from u0 have le1: "byo_yomi_time_remaining ?c \<le> ?ms0" by (simp add: word_le_nat_alt)
  from periods have p1: "byo_yomi_periods_remaining ?c \<noteq> 1" by auto
  have step1: "advance_clock_loop ?c ?ms0 True = advance_clock_loop ?ts1 ?ms1 True"
    using loop_rollover [OF ms0 _ le1 p1, of True] by simp
  from le1 u0 have u1: "unat ?ms1 = unat (byo_yomi_time ts) + r" by (simp add: unat_sub)
  then have ms1: "?ms1 \<noteq> 0" using span(2) by (auto simp: unat_eq_zero)
  from u1 have le2: "byo_yomi_time_remaining ?ts1 \<le> ?ms1" by (simp add: word_le_nat_alt)
  from periods have pu: "unat (byo_yomi_periods_remaining ts - 1) = unat (byo_yomi_periods_remaining ts) - 1"
    by (simp add: unat_minus_one unat_eq_zero [symmetric] del: unat_eq_zero)
  have final: "byo_yomi_stones_remaining (advance_clock_loop ?ts1 ?ms1 True) = byo_yomi_stones ts \<and>
     byo_yomi_periods_remaining (advance_clock_loop ?ts1 ?ms1 True) = byo_yomi_periods_remaining ts - 2 \<and>
     (timed_out (advance_clock_loop ?ts1 ?ms1 True) \<longleftrightarrow> byo_yomi_periods_remaining ts = 2)"
  proof (cases "byo_yomi_periods_remaining ts = 2")
    case True
    then have "byo_yomi_periods_remaining ?ts1 = 1" by simp
    from loop_timeout [OF ms1 _ le2 this, of True] True show ?thesis by simp
  next
    case False
    then have "unat (byo_yomi_periods_remaining ts) \<noteq> 2"
      by (simp add: word_unat_eq_iff)
    with pu periods have "unat (byo_yomi_periods_remaining ts - 1) \<noteq> 1" by simp
    then have p2: "byo_yomi_periods_remaining ?ts1 \<noteq> 1" by auto
    have step2: "advance_clock_loop ?ts1 ?ms1 True = advance_clock_loop ?ts2 ?ms2 True"
      using loop_rollover [OF ms1 _ le2 p2, of True] by simp
    from le2 u1 have u2: "unat ?ms2 = r" by (simp add: unat_sub)
    have "byo_yomi_stones_remaining (advance_clock_loop ?ts2 ?ms2 True) = byo_yomi_stones ts \<and>
     byo_yomi_periods_remaining (advance_clock_loop ?ts2 ?ms2 True) = byo_yomi_periods_remaining ts - 2 \<and>
     \<not> timed_out (advance_clock_loop ?ts2 ?ms2 True)"
    proof (cases "?ms2 = 0")
      case True
      then show ?thesis using run(2) by (simp add: loop_zero)
    next
      case nz: False
      from u2 span(2) have "?ms2 < byo_yomi_time_remaining ?ts2" by (simp add: word_less_nat_alt)
      from loop_within_period [OF nz _ this, of True] run show ?thesis
        by (simp split: if_splits)
    qed
    with False show ?thesis unfolding step2 by simp
  qed
  have result: "byo_yomi_stones_remaining (advance_clock ts ms) = byo_yomi_stones ts \<and>
         byo_yomi_periods_remaining (advance_clock ts ms) = byo_yomi_periods_remaining ts - 2 \<and>
         (timed_out (advance_clock ts ms) \<longleftrightarrow> byo_yomi_periods_remaining ts = 2)"
    unfolding entry step1 by (rule final)
  have differs: "byo_yomi_stones_remaining (advance_clock ts ms) \<noteq> byo_yomi_stones_remaining ts - 1"
    if "byo_yomi_stones_remaining ts \<noteq> 0 \<and> byo_yomi_stones_remaining ts \<le> byo_yomi_stones ts"
  proof -
    from that have "byo_yomi_stones_remaining ts - 1 < byo_yomi_stones_remaining ts"
      by (simp add: word_less_nat_alt unat_minus_one unat_gt_0)
    moreover from that have "byo_yomi_stones_remaining ts \<le> byo_yomi_stones ts" by simp
    ultimately have "byo_yomi_stones_remaining ts - 1 < byo_yomi_stones ts" by (rule less_le_trans)
    with result show ?thesis by simp
  qed
  show ?thesis
    using charge flag within entry result differs by blast
qed

theorem two_rollovers_replenish_witness:
  "byo_yomi_stones_remaining (advance_clock (set_time_system zero_time_system 500 1000 5 4) 2750) = 5 \<and>
   byo_yomi_periods_remaining (advance_clock (set_time_system zero_time_system 500 1000 5 4) 2750) = 2 \<and>
   \<not> timed_out (advance_clock (set_time_system zero_time_system 500 1000 5 4) 2750) \<and>
   byo_yomi_stones_remaining (advance_clock (set_time_system zero_time_system 0 1000 5 4) 250) = 4"
proof -
  have "can_timeout (set_time_system zero_time_system 500 1000 5 4)"
    "\<not> timed_out (set_time_system zero_time_system 500 1000 5 4)"
    "2 \<le> unat (byo_yomi_periods_remaining (set_time_system zero_time_system 500 1000 5 4))"
    "unat (2750 :: u32) =
       unat (main_time_remaining (set_time_system zero_time_system 500 1000 5 4)) +
       unat (byo_yomi_time_remaining (set_time_system zero_time_system 500 1000 5 4)) +
       unat (byo_yomi_time (set_time_system zero_time_system 500 1000 5 4)) + 250"
    "250 < unat (byo_yomi_time (set_time_system zero_time_system 500 1000 5 4))"
    by (simp_all add: set_time_system_def)
  note t = two_rollovers_replenish [OF this]
  from t have "byo_yomi_stones_remaining (advance_clock (set_time_system zero_time_system 500 1000 5 4) 2750) =
      byo_yomi_stones (set_time_system zero_time_system 500 1000 5 4) \<and>
    byo_yomi_periods_remaining (advance_clock (set_time_system zero_time_system 500 1000 5 4) 2750) =
      byo_yomi_periods_remaining (set_time_system zero_time_system 500 1000 5 4) - 2 \<and>
    (timed_out (advance_clock (set_time_system zero_time_system 500 1000 5 4) 2750) \<longleftrightarrow>
      byo_yomi_periods_remaining (set_time_system zero_time_system 500 1000 5 4) = 2)"
    by blast
  moreover have "byo_yomi_stones (set_time_system zero_time_system 500 1000 5 4) = 5"
    "byo_yomi_periods_remaining (set_time_system zero_time_system 500 1000 5 4) - 2 = 2"
    "byo_yomi_periods_remaining (set_time_system zero_time_system 500 1000 5 4) \<noteq> 2"
    by (simp_all add: set_time_system_def)
  ultimately have two: "byo_yomi_stones_remaining (advance_clock (set_time_system zero_time_system 500 1000 5 4) 2750) = 5 \<and>
   byo_yomi_periods_remaining (advance_clock (set_time_system zero_time_system 500 1000 5 4) 2750) = 2 \<and>
   \<not> timed_out (advance_clock (set_time_system zero_time_system 500 1000 5 4) 2750)"
    by (simp only: simp_thms)
  from t have w: "can_timeout ts' \<and> \<not> timed_out ts' \<and> main_time_remaining ts' = 0 \<and>
      ms' \<noteq> 0 \<and> ms' < byo_yomi_time_remaining ts' \<and> byo_yomi_stones_remaining ts' \<noteq> 1 \<longrightarrow>
      byo_yomi_stones_remaining (advance_clock ts' ms') = byo_yomi_stones_remaining ts' - 1" for ts' ms'
    by blast
  have pre: "can_timeout (set_time_system zero_time_system 0 1000 5 4) \<and>
      \<not> timed_out (set_time_system zero_time_system 0 1000 5 4) \<and>
      main_time_remaining (set_time_system zero_time_system 0 1000 5 4) = 0 \<and>
      (250 :: u32) \<noteq> 0 \<and> 250 < byo_yomi_time_remaining (set_time_system zero_time_system 0 1000 5 4) \<and>
      byo_yomi_stones_remaining (set_time_system zero_time_system 0 1000 5 4) \<noteq> 1"
    by (simp add: set_time_system_def)
  from w [of "set_time_system zero_time_system 0 1000 5 4" 250] pre
  have "byo_yomi_stones_remaining (advance_clock (set_time_system zero_time_system 0 1000 5 4) 250) =
      byo_yomi_stones_remaining (set_time_system zero_time_system 0 1000 5 4) - 1"
    by (rule mp)
  moreover have "byo_yomi_stones_remaining (set_time_system zero_time_system 0 1000 5 4) - 1 = 4"
    by (simp add: set_time_system_def)
  ultimately have "byo_yomi_stones_remaining (advance_clock (set_time_system zero_time_system 0 1000 5 4) 250) = 4"
    by (simp only:)
  with two show ?thesis by (simp only: simp_thms)
qed

text \<open>
  A fresh clock with 5 stones per period and 3 periods of 1000 ms, advanced by 2500 ms in
  one call: two rollovers (3 periods become 1), and the stone counter is 5 before and 5
  after, not 4.
\<close>

theorem one_stone_counterexample:
  "byo_yomi_periods_remaining (advance_clock (set_time_system zero_time_system 0 1000 5 3) 2500) = 1 \<and>
   byo_yomi_stones_remaining (advance_clock (set_time_system zero_time_system 0 1000 5 3) 2500) \<noteq>
     byo_yomi_stones_remaining (set_time_system zero_time_system 0 1000 5 3) - 1"
  by code_simp

section \<open>The engine: evaluation and maintenance\<close>

text \<open>
  The second source file holds \<open>evaluate_position\<close>, \<open>new_match_maintenance\<close> and
  \<open>opt_turn_maintenance\<close>, with the globals \<open>use_opening_book\<close>,
  \<open>tt_requires_maintenance\<close> and \<open>komi_offset\<close>. The functions they call
  (\<open>reduce_auto\<close>, \<open>opening_book\<close>, \<open>oboard_revert_reduce\<close>, \<open>mcts_start\<close>,
  \<open>transpositions_table_init\<close>, \<open>tt_clean_all\<close>, \<open>tt_clean_outside_tree\<close>) live in
  other files; they are taken as parameters. Those that work on state of their own (the
  opening book, the search, the transpositions table) take and return that state, of an
  arbitrary type \<open>'w\<close>; boards and output boards are of arbitrary types \<open>'b\<close> and
  \<open>'o\<close>. The \<open>double\<close> win rate is compared as a real number.
\<close>

type_synonym u64 = "64 word"
type_synonym s8 = "8 word"
type_synonym s16 = "16 word"

record ('b, 'o, 'w) collaborators =
  reduce_auto :: "'b \<Rightarrow> bool \<Rightarrow> 'b \<times> s8"
  opening_book :: "'w \<Rightarrow> 'b \<Rightarrow> 'o option \<times> 'w"
  oboard_revert_reduce :: "'o \<Rightarrow> s8 \<Rightarrow> 'o"
  mcts_start :: "'w \<Rightarrow> 'b \<Rightarrow> bool \<Rightarrow> u64 \<Rightarrow> u64 \<Rightarrow> ('o \<times> real) \<times> 'w"
  transpositions_table_init :: "'w \<Rightarrow> 'w"
  tt_clean_all :: "'w \<Rightarrow> 'w"
  tt_clean_outside_tree :: "'w \<Rightarrow> 'b \<Rightarrow> bool \<Rightarrow> u32 \<times> 'w"

text \<open>
  What the engine does to the outside, newest first: its calls into the search and the
  transpositions table, and the records it writes to the log.
\<close>

datatype 'b event =
  Mcts_start 'b bool u64 u64
  | Tt_clean_all
  | Tt_clean_outside_tree 'b bool
  | Log_freed_all
  | Log_freed_states u32

record ('b, 'w) engine =
  use_opening_book :: bool
  tt_requires_maintenance :: bool
  komi_offset :: s16
  world :: 'w
  trace :: "'b event list"

text \<open>The static initialisers: opening books in use, no maintenance needed.\<close>

definition initial_engine :: "s16 \<Rightarrow> 'w \<Rightarrow> ('b, 'w) engine" where
  "initial_engine k w =
     \<lparr>use_opening_book = True, tt_requires_maintenance = False, komi_offset = k,
      world = w, trace = []\<rparr>"

definition set_use_of_opening_book :: "bool \<Rightarrow> ('b, 'w) engine \<Rightarrow> ('b, 'w) engine" where
  "set_use_of_opening_book use_ob e = e\<lparr>use_opening_book := use_ob\<rparr>"

text \<open>
  \<open>evaluate_position\<close> returns false if the player can resign, and the output board.
  \<open>uct_min_winrate\<close> stands for the macro \<open>UCT_MIN_WINRATE\<close>.
\<close>

definition evaluate_position ::
  "('b, 'o, 'w) collaborators \<Rightarrow> real \<Rightarrow> 'b \<Rightarrow> bool \<Rightarrow> u64 \<Rightarrow> u64 \<Rightarrow>
   ('b, 'w) engine \<Rightarrow> (bool \<times> 'o) \<times> ('b, 'w) engine" where
  "evaluate_position cs uct_min_winrate b is_black stop_time early_stop_time e =
     (let book =
        (if use_opening_book e then
           (let (tmp, reduction) = reduce_auto cs b is_black;
                (hit, w) = opening_book cs (world e) tmp
            in (map_option (\<lambda>out_b. oboard_revert_reduce cs out_b reduction) hit, w))
         else (None, world e))
      in case book of
        (Some out_b, w) \<Rightarrow> ((True, out_b), e\<lparr>world := w\<rparr>)
      | (None, w) \<Rightarrow>
          (let ((out_b, win_rate), w') = mcts_start cs w b is_black stop_time early_stop_time
           in ((win_rate \<ge> uct_min_winrate, out_b),
               e\<lparr>world := w', trace := Mcts_start b is_black stop_time early_stop_time # trace e,
                 tt_requires_maintenance := True\<rparr>)))"

definition new_match_maintenance ::
  "('b, 'o, 'w) collaborators \<Rightarrow> ('b, 'w) engine \<Rightarrow> ('b, 'w) engine" where
  "new_match_maintenance cs e =
     e\<lparr>world := tt_clean_all cs (transpositions_table_init cs (world e)),
       tt_requires_maintenance := False,
       komi_offset := 0,
       trace := Log_freed_all # Tt_clean_all # trace e\<rparr>"

definition opt_turn_maintenance ::
  "('b, 'o, 'w) collaborators \<Rightarrow> 'b \<Rightarrow> bool \<Rightarrow> ('b, 'w) engine \<Rightarrow> ('b, 'w) engine" where
  "opt_turn_maintenance cs b is_black e =
     (if tt_requires_maintenance e then
        (let (freed, w) = tt_clean_outside_tree cs (world e) b is_black
         in e\<lparr>world := w,
              tt_requires_maintenance := False,
              trace := Log_freed_states freed # Tt_clean_outside_tree b is_black # trace e\<rparr>)
      else e)"

text \<open>The callers of this file: any sequence of its four public operations.\<close>

datatype 'b operation =
  Set_use_of_opening_book bool
  | Evaluate_position 'b bool u64 u64
  | New_match_maintenance
  | Opt_turn_maintenance 'b bool

fun perform ::
  "('b, 'o, 'w) collaborators \<Rightarrow> real \<Rightarrow> ('b, 'w) engine \<Rightarrow> 'b operation \<Rightarrow> ('b, 'w) engine" where
  "perform cs r e (Set_use_of_opening_book use_ob) = set_use_of_opening_book use_ob e"
| "perform cs r e (Evaluate_position b is_black stop_time early_stop_time) =
     snd (evaluate_position cs r b is_black stop_time early_stop_time e)"
| "perform cs r e New_match_maintenance = new_match_maintenance cs e"
| "perform cs r e (Opt_turn_maintenance b is_black) = opt_turn_maintenance cs b is_black e"

text \<open>
  Whether, reading the trace from its newest event, a search comes before any cleaning of
  the transpositions table: a search has run since the last maintenance pass.
\<close>

fun search_since_maintenance :: "'b event list \<Rightarrow> bool" where
  "search_since_maintenance [] = False"
| "search_since_maintenance (Mcts_start b is_black stop_time early_stop_time # es) = True"
| "search_since_maintenance (Tt_clean_all # es) = False"
| "search_since_maintenance (Tt_clean_outside_tree b is_black # es) = False"
| "search_since_maintenance (Log_freed_all # es) = search_since_maintenance es"
| "search_since_maintenance (Log_freed_states freed # es) = search_since_maintenance es"

text \<open>
  Collaborators to run the engine on: boards, output boards and the state of the
  transpositions table are numbers; the book knows board 0 only; every search adds ten
  states to the table and reports a win rate of a quarter; pruning frees the whole table.
\<close>

definition example_collaborators :: "(nat, nat, nat) collaborators" where
  "example_collaborators =
     \<lparr>reduce_auto = (\<lambda>b is_black. (b, 0)),
      opening_book = (\<lambda>w b. (if b = 0 then Some 7 else None, w)),
      oboard_revert_reduce = (\<lambda>out_b reduction. out_b),
      mcts_start = (\<lambda>w b is_black stop_time early_stop_time. ((b + 1, 1 / 4), w + 10)),
      transpositions_table_init = (\<lambda>w. w),
      tt_clean_all = (\<lambda>w. 0),
      tt_clean_outside_tree = (\<lambda>w b is_black. (word_of_nat w, 0))\<rparr>"

lemmas engine_eval = example_collaborators_def initial_engine_def evaluate_position_def
  opt_turn_maintenance_def new_match_maintenance_def set_use_of_opening_book_def

subsection \<open>Maintenance gating\<close>

lemma evaluate_position_flag:
  "tt_requires_maintenance (snd (evaluate_position cs r b is_black st est e)) =
     search_since_maintenance (trace (snd (evaluate_position cs r b is_black st est e)))"
  if "tt_requires_maintenance e = search_since_maintenance (trace e)"
  using that
  by (auto simp: evaluate_position_def Let_def split: prod.splits option.splits)

lemma perform_flag:
  assumes "tt_requires_maintenance e = search_since_maintenance (trace e)"
  shows "tt_requires_maintenance (perform cs r e x) = search_since_maintenance (trace (perform cs r e x))"
proof (cases x)
  case (Set_use_of_opening_book use_ob)
  then show ?thesis using assms by (simp add: set_use_of_opening_book_def)
next
  case (Evaluate_position b is_black st est)
  then show ?thesis using assms by (simp add: evaluate_position_flag)
next
  case New_match_maintenance
  then show ?thesis by (simp add: new_match_maintenance_def)
next
  case (Opt_turn_maintenance b is_black)
  then show ?thesis using assms by (simp add: opt_turn_maintenance_def split: prod.splits)
qed

lemma reachable_flag:
  assumes "tt_requires_maintenance e = search_since_maintenance (trace e)"
  shows "tt_requires_maintenance (foldl (perform cs r) e ops) =
         search_since_maintenance (trace (foldl (perform cs r) e ops))"
  using assms by (induction ops arbitrary: e) (simp_all add: perform_flag)

lemma opt_turn_maintenance_twice:
  "opt_turn_maintenance cs b' is_black' (opt_turn_maintenance cs b is_black e) =
   opt_turn_maintenance cs b is_black e"
  by (simp add: opt_turn_maintenance_def split: prod.splits)

text \<open>
  Claim C5. In every state the engine reaches from its initial state by its public
  operations, \<open>tt_requires_maintenance\<close> is set exactly when a search
  (\<open>mcts_start\<close>) has run since the last cleaning of the transpositions table.
  \<open>opt_turn_maintenance\<close> calls \<open>tt_clean_outside_tree\<close> (and logs the freed count)
  exactly in that case, and leaves the flag cleared; a second call right after it changes
  nothing, so it prunes nothing; and an \<open>evaluate_position\<close> that returns on a book hit
  leaves the flag and the trace as they were. The table the engine holds after
  \<open>opt_turn_maintenance\<close> is the one \<open>tt_clean_outside_tree\<close> has pruned in that
  case, and the table as it was otherwise; the other fields are unchanged. An
  \<open>evaluate_position\<close> without a book hit sets the flag, runs \<open>mcts_start\<close> and
  holds the table the search leaves.
\<close>

theorem maintenance_gating:
  fixes cs :: "('b, 'o, 'w) collaborators" and e :: "('b, 'w) engine"
  assumes "e = foldl (perform cs r) (initial_engine k w) ops"
  shows "tt_requires_maintenance e = search_since_maintenance (trace e) \<and>
    trace (opt_turn_maintenance cs b is_black e) =
      (if search_since_maintenance (trace e)
       then Log_freed_states (fst (tt_clean_outside_tree cs (world e) b is_black)) #
            Tt_clean_outside_tree b is_black # trace e
       else trace e) \<and>
    \<not> tt_requires_maintenance (opt_turn_maintenance cs b is_black e) \<and>
    opt_turn_maintenance cs b' is_black' (opt_turn_maintenance cs b is_black e) =
      opt_turn_maintenance cs b is_black e \<and>
    (use_opening_book e \<and>
     fst (opening_book cs (world e) (fst (reduce_auto cs b'' is_black''))) \<noteq> None \<longrightarrow>
       tt_requires_maintenance (snd (evaluate_position cs r b'' is_black'' st est e)) =
         tt_requires_maintenance e \<and>
       trace (snd (evaluate_position cs r b'' is_black'' st est e)) = trace e) \<and>
    world (opt_turn_maintenance cs b is_black e) =
      (if search_since_maintenance (trace e)
       then snd (tt_clean_outside_tree cs (world e) b is_black)
       else world e) \<and>
    use_opening_book (opt_turn_maintenance cs b is_black e) = use_opening_book e \<and>
    komi_offset (opt_turn_maintenance cs b is_black e) = komi_offset e \<and>
    (\<not> (use_opening_book e \<and>
        fst (opening_book cs (world e) (fst (reduce_auto cs b'' is_black''))) \<noteq> None) \<longrightarrow>
       tt_requires_maintenance (snd (evaluate_position cs r b'' is_black'' st est e)) \<and>
       trace (snd (evaluate_position cs r b'' is_black'' st est e)) =
         Mcts_start b'' is_black'' st est # trace e \<and>
       world (snd (evaluate_position cs r b'' is_black'' st est e)) =
         snd (mcts_start cs
               (if use_opening_book e
                then snd (opening_book cs (world e) (fst (reduce_auto cs b'' is_black'')))
                else world e)
               b'' is_black'' st est))"
proof -
  have flag: "tt_requires_maintenance e = search_since_maintenance (trace e)"
    unfolding assms by (rule reachable_flag) (simp add: initial_engine_def)
  have book: "tt_requires_maintenance (snd (evaluate_position cs r b'' is_black'' st est e)) =
         tt_requires_maintenance e \<and>
       trace (snd (evaluate_position cs r b'' is_black'' st est e)) = trace e"
    if "use_opening_book e"
      "fst (opening_book cs (world e) (fst (reduce_auto cs b'' is_black''))) \<noteq> None"
    using that by (auto simp: evaluate_position_def Let_def split: prod.splits option.splits)
  have search: "tt_requires_maintenance (snd (evaluate_position cs r b'' is_black'' st est e)) \<and>
       trace (snd (evaluate_position cs r b'' is_black'' st est e)) =
         Mcts_start b'' is_black'' st est # trace e \<and>
       world (snd (evaluate_position cs r b'' is_black'' st est e)) =
         snd (mcts_start cs
               (if use_opening_book e
                then snd (opening_book cs (world e) (fst (reduce_auto cs b'' is_black'')))
                else world e)
               b'' is_black'' st est)"
    if "\<not> (use_opening_book e \<and>
        fst (opening_book cs (world e) (fst (reduce_auto cs b'' is_black''))) \<noteq> None)"
    using that by (auto simp: evaluate_position_def Let_def split: prod.splits option.splits)
  have prune: "trace (opt_turn_maintenance cs b is_black e) =
      (if search_since_maintenance (trace e)
       then Log_freed_states (fst (tt_clean_outside_tree cs (world e) b is_black)) #
            Tt_clean_outside_tree b is_black # trace e
       else trace e) \<and>
    \<not> tt_requires_maintenance (opt_turn_maintenance cs b is_black e) \<and>
    world (opt_turn_maintenance cs b is_black e) =
      (if search_since_maintenance (trace e)
       then snd (tt_clean_outside_tree cs (world e) b is_black)
       else world e) \<and>
    use_opening_book (opt_turn_maintenance cs b is_black e) = use_opening_book e \<and>
    komi_offset (opt_turn_maintenance cs b is_black e) = komi_offset e"
    using flag by (simp add: opt_turn_maintenance_def split: prod.splits)
  show ?thesis
    using flag book search prune opt_turn_maintenance_twice [of cs b' is_black' b is_black e]
    by blast
qed

theorem maintenance_gating_witness:
  "trace (opt_turn_maintenance example_collaborators 2 True
      (foldl (perform example_collaborators (1 / 2)) (initial_engine 0 0)
        [Evaluate_position 0 True 100 50, Opt_turn_maintenance 0 False,
         Evaluate_position 1 False 200 150])) =
     [Log_freed_states 10, Tt_clean_outside_tree 2 True, Mcts_start 1 False 200 150] \<and>
   trace (foldl (perform example_collaborators (1 / 2)) (initial_engine 0 0)
        [Evaluate_position 0 True 100 50, Opt_turn_maintenance 0 False]) = [] \<and>
   world (foldl (perform example_collaborators (1 / 2)) (initial_engine 0 0)
        [Evaluate_position 0 True 100 50, Opt_turn_maintenance 0 False,
         Evaluate_position 1 False 200 150]) = 10 \<and>
   world (opt_turn_maintenance example_collaborators 2 True
      (foldl (perform example_collaborators (1 / 2)) (initial_engine 0 0)
        [Evaluate_position 0 True 100 50, Opt_turn_maintenance 0 False,
         Evaluate_position 1 False 200 150])) = 0"
proof -
  have a: "trace (foldl (perform example_collaborators (1 / 2)) (initial_engine 0 0)
        [Evaluate_position 0 True 100 50, Opt_turn_maintenance 0 False,
         Evaluate_position 1 False 200 150]) = [Mcts_start 1 False 200 150]"
    by (simp add: engine_eval)
  have b: "world (foldl (perform example_collaborators (1 / 2)) (initial_engine 0 0)
        [Evaluate_position 0 True 100 50, Opt_turn_maintenance 0 False,
         Evaluate_position 1 False 200 150]) = 10"
    by (simp add: engine_eval)
  have c: "fst (tt_clean_outside_tree example_collaborators 10 2 True) = 10"
    "snd (tt_clean_outside_tree example_collaborators 10 2 True) = 0"
    by (simp_all add: example_collaborators_def)
  have d: "trace (foldl (perform example_collaborators (1 / 2)) (initial_engine 0 0)
        [Evaluate_position 0 True 100 50, Opt_turn_maintenance 0 False]) = []"
    by (simp add: engine_eval)
  note t = maintenance_gating [OF refl, of example_collaborators "1 / 2" 0 0
      "[Evaluate_position 0 True 100 50, Opt_turn_maintenance 0 False,
         Evaluate_position 1 False 200 150]" 2 True]
  note g = t [THEN conjunct2, THEN conjunct1]
  note h = t [THEN conjunct2, THEN conjunct2, THEN conjunct2, THEN conjunct2, THEN conjunct2,
      THEN conjunct1]
  have "trace (opt_turn_maintenance example_collaborators 2 True
      (foldl (perform example_collaborators (1 / 2)) (initial_engine 0 0)
        [Evaluate_position 0 True 100 50, Opt_turn_maintenance 0 False,
         Evaluate_position 1 False 200 150])) =
     [Log_freed_states 10, Tt_clean_outside_tree 2 True, Mcts_start 1 False 200 150]"
    by (simp only: g a b c search_since_maintenance.simps if_True)
  moreover have "world (opt_turn_maintenance example_collaborators 2 True
      (foldl (perform example_collaborators (1 / 2)) (initial_engine 0 0)
        [Evaluate_position 0 True 100 50, Opt_turn_maintenance 0 False,
         Evaluate_position 1 False 200 150])) = 0"
    by (simp only: h a b c search_since_maintenance.simps if_True)
  ultimately show ?thesis using d b by (simp only: simp_thms)
qed

subsection \<open>The book path and resignation\<close>

text \<open>
  Claim C10. When the opening book is in use and has the reduced position,
  \<open>evaluate_position\<close> returns true (the player cannot resign) with the book's play
  mapped back, whatever the value of \<open>UCT_MIN_WINRATE\<close>.
\<close>

theorem book_hit_never_resigns:
  assumes "use_opening_book e"
    and "fst (opening_book cs (world e) (fst (reduce_auto cs b is_black))) = Some out_b"
  shows "fst (evaluate_position cs r b is_black st est e) =
           (True, oboard_revert_reduce cs out_b (snd (reduce_auto cs b is_black)))"
  using assms by (auto simp: evaluate_position_def Let_def split: prod.splits option.splits)


theorem book_hit_never_resigns_witness:
  "fst (evaluate_position example_collaborators 2 0 True 100 50 (initial_engine 0 0)) = (True, 7)"
proof -
  have "use_opening_book (initial_engine 0 (0::nat) :: (nat, nat) engine)"
    by (simp add: initial_engine_def)
  moreover have "fst (opening_book example_collaborators (world (initial_engine 0 (0::nat) :: (nat, nat) engine))
      (fst (reduce_auto example_collaborators 0 True))) = Some 7"
    by (simp add: example_collaborators_def initial_engine_def)
  ultimately show ?thesis
    using book_hit_never_resigns [of "initial_engine 0 0" example_collaborators 0 True 7 2 100 50]
    by (simp add: example_collaborators_def)
qed


section \<open>The time to play of a turn\<close>

















section \<open>Time systems as text\<close>

subsection \<open>Reading: \<open>str_to_time_system\<close>\<close>

text \<open>
  \<open>str_to_time_system\<close> calls \<open>trim\<close>, \<open>str_to_milliseconds\<close> and \<open>parse_int\<close> of
  stringm.c, which is not among the source files at hand: they are parameters, so that
  what is proved of the function holds whatever they do. \<open>str_to_milliseconds\<close> returns
  an \<open>s32\<close>, negative on failure; \<open>parse_int\<close> returns whether it succeeded and stores
  an \<open>s32\<close>. Both are 32-bit words read as two's complement by \<open>sint\<close>; storing them
  in a \<open>u32\<close> keeps the bits.
\<close>

type_synonym s32 = "32 word"

record stringm =
  trim :: "string \<Rightarrow> string"
  str_to_milliseconds :: "string \<Rightarrow> s32"
  parse_int :: "string \<Rightarrow> s32 option"

text \<open>
  \<open>index(s, c)\<close> followed by \<open>char_idx[0] = 0\<close> and \<open>rest = char_idx + 1\<close>: the text
  before the first \<open>c\<close> and the text after it, if there is one.
\<close>

definition index_cut :: "string \<Rightarrow> char \<Rightarrow> (string \<times> string) option" where
  "index_cut s c =
     (if c \<in> set s then Some (takeWhile (\<lambda>x. x \<noteq> c) s, tl (dropWhile (\<lambda>x. x \<noteq> c) s))
      else None)"

text \<open>
  The source string may be \<open>NULL\<close> (\<open>None\<close>) and \<open>malloc\<close> may fail
  (\<open>malloc_ok\<close>). The result is the returned flag and the contents of \<open>dst\<close> on return.
  Strings are taken to be shorter than \<open>2^32\<close>, so that \<open>u32 len = strlen(src)\<close> is the
  length.
\<close>

definition str_to_time_system ::
  "stringm \<Rightarrow> bool \<Rightarrow> string option \<Rightarrow> time_system \<Rightarrow> bool \<times> time_system" where
  "str_to_time_system h malloc_ok src dst =
     (case src of
        None \<Rightarrow> (False, dst)
      | Some src \<Rightarrow>
          if length src < 9 then (False, dst)
          else if \<not> malloc_ok then (False, dst)
          else
            (let s = trim h src in
             if length s < 9 then (False, dst)
             else
               (case index_cut s CHR ''+'' of
                  None \<Rightarrow> (False, dst)
                | Some (s, rest) \<Rightarrow>
                    (let t = str_to_milliseconds h s in
                     if sint t < 0 then (False, dst)
                     else
                       (let absolute_milliseconds = t; s = rest in
                        case index_cut s CHR ''x'' of
                          None \<Rightarrow> (False, dst)
                        | Some (s, rest) \<Rightarrow>
                            (case parse_int h s of
                               None \<Rightarrow> (False, dst)
                             | Some t \<Rightarrow>
                                 if sint t < 0 then (False, dst)
                                 else
                                   (let byoyomi_periods = t; s = rest in
                                    case index_cut s CHR ''/'' of
                                      None \<Rightarrow> (False, dst)
                                    | Some (s, rest) \<Rightarrow>
                                        (let t = str_to_milliseconds h s in
                                         if sint t < 0 then (False, dst)
                                         else
                                           (let byoyomi_milliseconds = t; s = rest in
                                            case parse_int h s of
                                              None \<Rightarrow> (False, dst)
                                            | Some t \<Rightarrow>
                                                if sint t < 1 then (False, dst)
                                                else
                                                  (let byoyomi_stones = t in
                                                   (True,
                                                    dst\<lparr>main_time := absolute_milliseconds,
                                                        byo_yomi_stones := byoyomi_stones,
                                                        byo_yomi_time := byoyomi_milliseconds,
                                                        byo_yomi_periods := byoyomi_periods\<rparr>)))))))))))"

lemma set_tl_subset: "set (tl xs) \<subseteq> set xs"
  by (cases xs) auto

lemma index_cut_set:
  assumes "index_cut s c = Some (a, r)"
  shows "set a \<subseteq> set s" "set r \<subseteq> set s"
proof -
  from assms have a: "a = takeWhile (\<lambda>x. x \<noteq> c) s" and r: "r = tl (dropWhile (\<lambda>x. x \<noteq> c) s)"
    by (auto simp: index_cut_def split: if_splits)
  show "set a \<subseteq> set s" unfolding a by (auto dest: set_takeWhileD)
  have "set r \<subseteq> set (dropWhile (\<lambda>x. x \<noteq> c) s)"
    unfolding r by (rule set_tl_subset)
  also have "\<dots> \<subseteq> set s" by (auto dest: set_dropWhileD)
  finally show "set r \<subseteq> set s" .
qed

lemma index_cut_None: "index_cut s c = None \<longleftrightarrow> c \<notin> set s"
  by (simp add: index_cut_def)

lemma str_to_time_system_success:
  "fst (str_to_time_system h malloc_ok src dst) \<longleftrightarrow>
     (\<exists>s a r1 p r2 b st np ns.
        src = Some s \<and> 9 \<le> length s \<and> malloc_ok \<and> 9 \<le> length (trim h s) \<and>
        index_cut (trim h s) CHR ''+'' = Some (a, r1) \<and> 0 \<le> sint (str_to_milliseconds h a) \<and>
        index_cut r1 CHR ''x'' = Some (p, r2) \<and> parse_int h p = Some np \<and> 0 \<le> sint np \<and>
        index_cut r2 CHR ''/'' = Some (b, st) \<and> 0 \<le> sint (str_to_milliseconds h b) \<and>
        parse_int h st = Some ns \<and> 1 \<le> sint ns \<and>
        snd (str_to_time_system h malloc_ok src dst) =
          dst\<lparr>main_time := str_to_milliseconds h a, byo_yomi_stones := ns,
              byo_yomi_time := str_to_milliseconds h b, byo_yomi_periods := np\<rparr>)"
  by (cases src) (auto simp add: str_to_time_system_def Let_def split: option.splits prod.splits if_splits)

text \<open>
  Claim C7. Whenever \<open>str_to_time_system\<close> returns false, \<open>dst\<close> is what it was; and
  it does return false for a \<open>NULL\<close> source, for a source of fewer than 9 characters
  (before or after trimming), when \<open>malloc\<close> fails, when the trimmed source lacks a
  \<open>+\<close>, an \<open>x\<close> or a \<open>/\<close>, when the main duration is malformed
  (\<open>str_to_milliseconds\<close> negative), and when the stone count does not parse or is
  below 1.
\<close>

theorem parse_failure_untouched:
  "(\<not> fst (str_to_time_system h malloc_ok src dst) \<longrightarrow>
      snd (str_to_time_system h malloc_ok src dst) = dst) \<and>
   \<not> fst (str_to_time_system h malloc_ok None dst) \<and>
   (length s < 9 \<or> \<not> malloc_ok \<or> length (trim h s) < 9 \<longrightarrow>
      \<not> fst (str_to_time_system h malloc_ok (Some s) dst)) \<and>
   (CHR ''+'' \<notin> set (trim h s) \<or> CHR ''x'' \<notin> set (trim h s) \<or> CHR ''/'' \<notin> set (trim h s) \<longrightarrow>
      \<not> fst (str_to_time_system h malloc_ok (Some s) dst)) \<and>
   (\<forall>a r. index_cut (trim h s) CHR ''+'' = Some (a, r) \<and> sint (str_to_milliseconds h a) < 0 \<longrightarrow>
      \<not> fst (str_to_time_system h malloc_ok (Some s) dst)) \<and>
   (\<forall>a r1 p r2 b st.
      index_cut (trim h s) CHR ''+'' = Some (a, r1) \<and> index_cut r1 CHR ''x'' = Some (p, r2) \<and>
      index_cut r2 CHR ''/'' = Some (b, st) \<and>
      (\<forall>ns. parse_int h st = Some ns \<longrightarrow> sint ns < 1) \<longrightarrow>
      \<not> fst (str_to_time_system h malloc_ok (Some s) dst))"
proof -
  have untouched: "\<not> fst (str_to_time_system h malloc_ok src dst) \<longrightarrow>
      snd (str_to_time_system h malloc_ok src dst) = dst"
    by (simp add: str_to_time_system_def Let_def split: option.splits prod.splits)
  have null: "\<not> fst (str_to_time_system h malloc_ok None dst)"
    by (simp add: str_to_time_system_def)
  have short: "\<not> fst (str_to_time_system h malloc_ok (Some s) dst)"
    if "length s < 9 \<or> \<not> malloc_ok \<or> length (trim h s) < 9"
    using that by (auto simp: str_to_time_system_def Let_def)
  have separators: "CHR ''+'' \<in> set (trim h s) \<and> CHR ''x'' \<in> set (trim h s) \<and>
      CHR ''/'' \<in> set (trim h s)"
    if ok: "fst (str_to_time_system h malloc_ok (Some s) dst)"
  proof -
    from ok obtain a r1 p r2 b st where
      c1: "index_cut (trim h s) CHR ''+'' = Some (a, r1)" and
      c2: "index_cut r1 CHR ''x'' = Some (p, r2)" and
      c3: "index_cut r2 CHR ''/'' = Some (b, st)"
      unfolding str_to_time_system_success by auto
    from c1 have "CHR ''+'' \<in> set (trim h s)" using index_cut_None [of "trim h s" "CHR ''+''"] by auto
    moreover from c2 have "CHR ''x'' \<in> set r1" using index_cut_None [of r1 "CHR ''x''"] by auto
    moreover from c3 have "CHR ''/'' \<in> set r2" using index_cut_None [of r2 "CHR ''/''"] by auto
    ultimately show ?thesis
      using index_cut_set(2) [OF c1] index_cut_set(2) [OF c2] by auto
  qed
  have duration: "\<not> fst (str_to_time_system h malloc_ok (Some s) dst)"
    if "index_cut (trim h s) CHR ''+'' = Some (a, r)" "sint (str_to_milliseconds h a) < 0" for a r
    using that unfolding str_to_time_system_success by auto
  have count: "\<not> fst (str_to_time_system h malloc_ok (Some s) dst)"
    if "index_cut (trim h s) CHR ''+'' = Some (a, r1)" "index_cut r1 CHR ''x'' = Some (p, r2)"
      "index_cut r2 CHR ''/'' = Some (b, st)" "\<forall>ns. parse_int h st = Some ns \<longrightarrow> sint ns < 1"
    for a r1 p r2 b st
    using that unfolding str_to_time_system_success by auto
  show ?thesis
    using untouched null short separators duration count by blast
qed

text \<open>
  Claim C9. A successful \<open>str_to_time_system\<close> assigns \<open>main_time\<close>,
  \<open>byo_yomi_stones\<close>, \<open>byo_yomi_time\<close> and \<open>byo_yomi_periods\<close> of \<open>dst\<close> and nothing
  else: \<open>can_timeout\<close>, \<open>timed_out\<close> and the four \<open>*_remaining\<close> fields are those of
  \<open>dst\<close> before the call.
\<close>

theorem parse_success_frame:
  assumes "fst (str_to_time_system h malloc_ok src dst)"
  shows "can_timeout (snd (str_to_time_system h malloc_ok src dst)) = can_timeout dst \<and>
    timed_out (snd (str_to_time_system h malloc_ok src dst)) = timed_out dst \<and>
    main_time_remaining (snd (str_to_time_system h malloc_ok src dst)) = main_time_remaining dst \<and>
    byo_yomi_time_remaining (snd (str_to_time_system h malloc_ok src dst)) =
      byo_yomi_time_remaining dst \<and>
    byo_yomi_stones_remaining (snd (str_to_time_system h malloc_ok src dst)) =
      byo_yomi_stones_remaining dst \<and>
    byo_yomi_periods_remaining (snd (str_to_time_system h malloc_ok src dst)) =
      byo_yomi_periods_remaining dst \<and>
    (\<exists>mt bs bt bp. snd (str_to_time_system h malloc_ok src dst) =
        dst\<lparr>main_time := mt, byo_yomi_stones := bs, byo_yomi_time := bt, byo_yomi_periods := bp\<rparr>)"
proof -
  from assms obtain mt bs bt bp where
    "snd (str_to_time_system h malloc_ok src dst) =
        dst\<lparr>main_time := mt, byo_yomi_stones := bs, byo_yomi_time := bt, byo_yomi_periods := bp\<rparr>"
    unfolding str_to_time_system_success by blast
  then show ?thesis by auto
qed

text \<open>
  Claim C6, as amended. \<open>str_to_time_system\<close> succeeds only when the text between
  \<open>+\<close> and \<open>x\<close> parses to a period count of at least 0 and the text after \<open>/\<close> to a
  stone count of at least 1; these are the counts it stores.
\<close>

theorem parse_counts:
  assumes "fst (str_to_time_system h malloc_ok (Some s) dst)"
  shows "\<exists>a r1 p r2 b st np ns.
     index_cut (trim h s) CHR ''+'' = Some (a, r1) \<and> index_cut r1 CHR ''x'' = Some (p, r2) \<and>
     index_cut r2 CHR ''/'' = Some (b, st) \<and>
     parse_int h p = Some np \<and> 0 \<le> sint np \<and>
     parse_int h st = Some ns \<and> 1 \<le> sint ns \<and>
     byo_yomi_periods (snd (str_to_time_system h malloc_ok (Some s) dst)) = np \<and>
     byo_yomi_stones (snd (str_to_time_system h malloc_ok (Some s) dst)) = ns"
proof -
  from assms obtain a r1 p r2 b st np ns where
    "index_cut (trim h s) CHR ''+'' = Some (a, r1)" "index_cut r1 CHR ''x'' = Some (p, r2)"
    "index_cut r2 CHR ''/'' = Some (b, st)" "parse_int h p = Some np" "0 \<le> sint np"
    "parse_int h st = Some ns" "1 \<le> sint ns"
    "snd (str_to_time_system h malloc_ok (Some s) dst) =
          dst\<lparr>main_time := str_to_milliseconds h a, byo_yomi_stones := ns,
              byo_yomi_time := str_to_milliseconds h b, byo_yomi_periods := np\<rparr>"
    unfolding str_to_time_system_success by blast
  then show ?thesis by auto
qed


subsection \<open>Writing: \<open>time_system_to_str\<close>\<close>

text \<open>
  \<open>dec\<close> is the \<open>%u\<close> of \<open>snprintf\<close>. \<open>time_unit\<close> is the choice of the unit, which
  the source writes out twice, for \<open>abs_time\<close> and for \<open>byo_time\<close>: the value in
  the unit, and the suffix. \<open>snprintf(buf, 64, ...)\<close> keeps at most 63 characters.
\<close>

definition digit_char :: "nat \<Rightarrow> char" where
  "digit_char d = ''0123456789'' ! d"

fun dec :: "nat \<Rightarrow> string" where
  "dec n = (if n < 10 then [digit_char n] else dec (n div 10) @ [digit_char (n mod 10)])"

declare dec.simps [simp del]

definition time_unit :: "u32 \<Rightarrow> u32 \<times> string" where
  "time_unit t =
     (let a = (if t = 0 then [] else ''ms'') in
      if t \<ge> 1000 \<and> t mod 1000 = 0 then
        (let a = ''s''; t = t div 1000;
             (a, t) = (if t \<ge> 60 \<and> t mod 60 = 0 then (''m'', t div 60) else (a, t));
             (a, t) = (if t \<ge> 60 \<and> t mod 60 = 0 then (''h'', t div 60) else (a, t))
         in (t, a))
      else (t, a))"

definition time_system_to_str :: "time_system \<Rightarrow> string" where
  "time_system_to_str ts =
     (let (abs_time, a) = time_unit (main_time ts);
          (byo_time, b) = time_unit (byo_yomi_time ts)
      in take 63
           (dec (unat abs_time) @ a @ ''+'' @ dec (unat (byo_yomi_periods ts)) @ ''x'' @
            dec (unat byo_time) @ b @ ''/'' @ dec (unat (byo_yomi_stones ts))))"

subsection \<open>The helpers of stringm.c\<close>

text \<open>
  \<open>str_to_milliseconds\<close>, \<open>parse_int\<close> and \<open>trim\<close> are defined in stringm.c, which is
  not among the source files. To read given texts they are modelled here from the spec's
  grammar of the time-control text format. First, decimal numerals and their values.
\<close>

definition is_digit :: "char \<Rightarrow> bool" where
  "is_digit c \<longleftrightarrow> c \<in> set ''0123456789''"

definition digit_val :: "char \<Rightarrow> nat" where
  "digit_val c = length (takeWhile (\<lambda>d. d \<noteq> c) ''0123456789'')"

definition decimal_value :: "string \<Rightarrow> nat" where
  "decimal_value s = foldl (\<lambda>n c. 10 * n + digit_val c) 0 s"

definition is_decimal :: "string \<Rightarrow> bool" where
  "is_decimal s \<longleftrightarrow> s \<noteq> [] \<and> list_all is_digit s"

text \<open>
  Modelled from the spec: \<open>str_to_milliseconds\<close> of stringm.c is absent. The spec: a
  duration is "an integer magnitude optionally suffixed by one of ms (default,
  omissible), s, m, h", and a malformed duration literal is rejected (the source takes a
  negative result as the rejection). The spec says nothing on values that do not fit the
  \<open>s32\<close>: they wrap here.
\<close>

definition ends_with :: "string \<Rightarrow> string \<Rightarrow> bool" where
  "ends_with s e \<longleftrightarrow> length e \<le> length s \<and> drop (length s - length e) s = e"

definition duration_parts :: "string \<Rightarrow> string \<times> nat" where
  "duration_parts s =
     (if ends_with s ''ms'' then (take (length s - 2) s, 1)
      else if ends_with s ''s'' then (take (length s - 1) s, 1000)
      else if ends_with s ''m'' then (take (length s - 1) s, 60000)
      else if ends_with s ''h'' then (take (length s - 1) s, 3600000)
      else (s, 1))"

definition str_to_milliseconds_spec :: "string \<Rightarrow> s32" where
  "str_to_milliseconds_spec s =
     (let (magnitude, factor) = duration_parts s
      in if is_decimal magnitude then word_of_nat (decimal_value magnitude * factor) else - 1)"

text \<open>
  Modelled from the spec: \<open>parse_int\<close> of stringm.c is absent. The spec: periods and
  stones are integers, and a non-positive count can be written and is rejected by the
  caller; so an integer is a decimal numeral with an optional minus sign.
\<close>

definition parse_int_spec :: "string \<Rightarrow> s32 option" where
  "parse_int_spec s =
     (case s of
        [] \<Rightarrow> None
      | c # ds \<Rightarrow>
          if c = CHR ''-'' then
            (if is_decimal ds then Some (- word_of_nat (decimal_value ds)) else None)
          else if is_decimal s then Some (word_of_nat (decimal_value s)) else None)"

text \<open>
  Modelled from the spec: \<open>trim\<close> of stringm.c is absent, and the spec does not describe
  it. It is taken to remove the white space (the characters of C's \<open>isspace\<close>) at both
  ends, as its name and its use say.
\<close>

definition is_space :: "char \<Rightarrow> bool" where
  "is_space c \<longleftrightarrow> c \<in> {CHR '' '', CHR 0x09, CHR 0x0A, CHR 0x0B, CHR 0x0C, CHR 0x0D}"

definition trim_spec :: "string \<Rightarrow> string" where
  "trim_spec s = rev (dropWhile is_space (rev (dropWhile is_space s)))"

definition stringm_spec :: stringm where
  "stringm_spec = \<lparr>trim = trim_spec, str_to_milliseconds = str_to_milliseconds_spec,
     parse_int = parse_int_spec\<rparr>"

text \<open>Equations to evaluate the reading and the writing of given texts.\<close>

lemma dec_numeral:
  "dec (numeral k) =
     (if (numeral k :: nat) < 10 then [digit_char (numeral k)]
      else dec (numeral k div 10) @ [digit_char (numeral k mod 10)])"
  by (subst dec.simps) simp

lemma dec_0: "dec 0 = ''0''"
  by (subst dec.simps) (simp add: digit_char_def)

lemma dec_1: "dec (Suc 0) = ''1''"
  by (subst dec.simps) (simp add: digit_char_def)

lemmas format_eval = time_system_to_str_def time_unit_def Let_def dec_numeral dec_0 dec_1 digit_char_def

lemmas parse_eval = str_to_time_system_def stringm_spec_def trim_spec_def is_space_def index_cut_def
      str_to_milliseconds_spec_def duration_parts_def ends_with_def is_decimal_def is_digit_def
      decimal_value_def digit_val_def parse_int_spec_def



subsection \<open>Examples of reading\<close>

theorem parse_failure_untouched_witness:
  "\<not> fst (str_to_time_system stringm_spec True (Some ''300s+5x30s'')
       (set_time_system zero_time_system 1 2 3 4)) \<and>
   snd (str_to_time_system stringm_spec True (Some ''300s+5x30s'')
       (set_time_system zero_time_system 1 2 3 4)) = set_time_system zero_time_system 1 2 3 4"
proof -
  have rejected: "\<not> fst (str_to_time_system stringm_spec True (Some ''300s+5x30s'')
       (set_time_system zero_time_system 1 2 3 4))"
    by (simp add: parse_eval)
  from parse_failure_untouched [of stringm_spec True "Some ''300s+5x30s''"
      "set_time_system zero_time_system 1 2 3 4", THEN conjunct1, THEN mp, OF rejected] rejected
  show ?thesis by simp
qed

theorem parse_success_frame_witness:
  "main_time (snd (str_to_time_system stringm_spec True (Some ''300s+5x30s/1'') zero_time_system)) =
     300000 \<and>
   main_time_remaining
     (snd (str_to_time_system stringm_spec True (Some ''300s+5x30s/1'') zero_time_system)) = 0"
proof -
  have parsed: "str_to_time_system stringm_spec True (Some ''300s+5x30s/1'') zero_time_system =
     (True, zero_time_system\<lparr>main_time := 300000, byo_yomi_stones := 1, byo_yomi_time := 30000,
        byo_yomi_periods := 5\<rparr>)"
    by (simp add: parse_eval)
  then have ok: "fst (str_to_time_system stringm_spec True (Some ''300s+5x30s/1'') zero_time_system)"
    by simp
  from parse_success_frame [OF ok]
  have "main_time_remaining
     (snd (str_to_time_system stringm_spec True (Some ''300s+5x30s/1'') zero_time_system)) =
     main_time_remaining zero_time_system"
    by simp
  then show ?thesis by (simp add: parsed) (simp add: zero_time_system_def)
qed

theorem parse_counts_witness:
  "1 \<le> sint (byo_yomi_stones
      (snd (str_to_time_system stringm_spec True (Some ''300s+5x30s/1'') zero_time_system))) \<and>
   0 \<le> sint (byo_yomi_periods
      (snd (str_to_time_system stringm_spec True (Some ''300s+5x30s/1'') zero_time_system)))"
proof -
  have ok: "fst (str_to_time_system stringm_spec True (Some ''300s+5x30s/1'') zero_time_system)"
    by (simp add: parse_eval)
  from parse_counts [OF ok] show ?thesis by auto
qed

text \<open>
  A period count of zero is accepted: the check of the periods is \<open>t < 0\<close>, that of
  the stones \<open>t < 1\<close>.
\<close>

theorem zero_periods_accepted_counterexample:
  "fst (str_to_time_system stringm_spec True (Some ''300s+0x30s/1'') zero_time_system) \<and>
   byo_yomi_periods
     (snd (str_to_time_system stringm_spec True (Some ''300s+0x30s/1'') zero_time_system)) = 0"
  by (simp add: parse_eval)


subsection \<open>Writing, then reading\<close>

text \<open>Decimal digits: what \<open>%u\<close> writes is a decimal numeral, and reads back as its value.\<close>

lemma digit_cases:
  assumes "d < (10::nat)"
  shows "d = 0 \<or> d = 1 \<or> d = 2 \<or> d = 3 \<or> d = 4 \<or> d = 5 \<or> d = 6 \<or> d = 7 \<or> d = 8 \<or> d = 9"
  using assms by presburger

lemma digit_char_is_digit: "d < 10 \<Longrightarrow> is_digit (digit_char d)"
  by (drule digit_cases) (auto simp: digit_char_def is_digit_def)

lemma digit_val_digit_char: "d < 10 \<Longrightarrow> digit_val (digit_char d) = d"
  by (drule digit_cases) (auto simp: digit_char_def digit_val_def)

lemma dec_is_decimal: "is_decimal (dec n)"
proof (induction n rule: dec.induct)
  case (1 n)
  show ?case
  proof (cases "n < 10")
    case True
    then show ?thesis
      by (subst dec.simps) (simp add: is_decimal_def digit_char_is_digit)
  next
    case False
    with 1 have "is_decimal (dec (n div 10))" by simp
    then show ?thesis
      using False by (subst dec.simps) (simp add: is_decimal_def digit_char_is_digit)
  qed
qed

lemma decimal_value_snoc: "decimal_value (s @ [c]) = 10 * decimal_value s + digit_val c"
  by (simp add: decimal_value_def)

lemma decimal_value_dec: "decimal_value (dec n) = n"
proof (induction n rule: dec.induct)
  case (1 n)
  show ?case
  proof (cases "n < 10")
    case True
    then show ?thesis
      by (subst dec.simps) (simp add: decimal_value_def digit_val_digit_char)
  next
    case False
    with 1 have "decimal_value (dec (n div 10)) = n div 10" by simp
    then show ?thesis
      using False by (subst dec.simps) (simp add: decimal_value_snoc digit_val_digit_char)
  qed
qed

lemma length_dec: "0 < k \<Longrightarrow> n < 10 ^ k \<Longrightarrow> length (dec n) \<le> k"
proof (induction n arbitrary: k rule: dec.induct)
  case (1 n)
  show ?case
  proof (cases "n < 10")
    case True
    then show ?thesis using "1.prems" by (subst dec.simps) simp
  next
    case False
    from False "1.prems" have k: "1 < k"
      by (cases "k = 1") auto
    then obtain j where j: "k = Suc j" "0 < j" by (cases k) auto
    from "1.prems"(2) j have "n div 10 < 10 ^ j"
      by (simp add: less_mult_imp_div_less mult.commute)
    with "1.IH" [OF False j(2)] have "length (dec (n div 10)) \<le> j" by simp
    then show ?thesis using False j by (subst dec.simps) simp
  qed
qed

lemma length_dec_u32: "length (dec (unat (w :: u32))) \<le> 10"
proof -
  have "unat w < 2 ^ 32" using unsigned_less [of w, where 'a = nat] by simp
  then have "unat w < 10 ^ 10" by simp
  then show ?thesis by (intro length_dec) simp_all
qed


text \<open>
  The unit that \<open>time_system_to_str\<close> chooses divides the time: the value it prints,
  times the milliseconds of the unit, is the time.
\<close>

definition unit_ms :: "string \<Rightarrow> nat" where
  "unit_ms u = (if u = ''s'' then 1000 else if u = ''m'' then 60000
                else if u = ''h'' then 3600000 else 1)"

lemma word_div_exact:
  fixes t k :: u32
  assumes "t mod k = 0"
  shows "unat (t div k) * unat k = unat t"
proof -
  from assms have "unat (t mod k) = 0" by simp
  then have "unat t mod unat k = 0" by (simp add: unat_mod)
  then have "unat k dvd unat t" by (simp add: mod_eq_0_iff_dvd)
  then show ?thesis by (simp add: unat_div)
qed

lemma time_unit_value:
  assumes "time_unit t = (q, u)"
  shows "u \<in> {[], ''ms'', ''s'', ''m'', ''h''} \<and> unat q * unit_ms u = unat t"
proof (cases "t \<ge> 1000 \<and> t mod 1000 = 0")
  case False
  with assms have "q = t" "u = (if t = 0 then [] else ''ms'')"
    by (auto simp: time_unit_def Let_def)
  then show ?thesis by (simp add: unit_ms_def)
next
  case s: True
  define t1 where "t1 = t div 1000"
  from s have v1: "unat t1 * 1000 = unat t"
    using word_div_exact [of t 1000] by (simp add: t1_def)
  show ?thesis
  proof (cases "t1 \<ge> 60 \<and> t1 mod 60 = 0")
    case False
    with assms s v1 show ?thesis
      by (auto simp: time_unit_def unit_ms_def Let_def t1_def)
  next
    case m: True
    define t2 where "t2 = t1 div 60"
    from m have v2: "unat t2 * 60 = unat t1"
      using word_div_exact [of t1 60] by (simp add: t2_def)
    show ?thesis
    proof (cases "t2 \<ge> 60 \<and> t2 mod 60 = 0")
      case False
      with assms s m v1 v2 show ?thesis
        by (auto simp: time_unit_def unit_ms_def Let_def t1_def t2_def)
    next
      case h: True
      define t3 where "t3 = t2 div 60"
      from h have v3: "unat t3 * 60 = unat t2"
        using word_div_exact [of t2 60] by (simp add: t3_def)
      from assms s m h have "q = t3" "u = ''h''"
        by (auto simp: time_unit_def Let_def t1_def t2_def t3_def)
      with v1 v2 v3 show ?thesis by (simp add: unit_ms_def)
    qed
  qed
qed

text \<open>A decimal numeral followed by one of the suffixes is split at the suffix.\<close>

lemma ends_with_iff: "ends_with s e \<longleftrightarrow> (\<exists>p. s = p @ e)"
proof
  assume "ends_with s e"
  then have "s = take (length s - length e) s @ e"
    by (metis append_take_drop_id ends_with_def)
  then show "\<exists>p. s = p @ e" ..
next
  assume "\<exists>p. s = p @ e"
  then show "ends_with s e" by (auto simp: ends_with_def)
qed

lemma is_decimal_last:
  assumes "is_decimal ds"
  obtains ys d where "ds = ys @ [d]" "is_digit d"
proof -
  from assms have "ds \<noteq> []" "list_all is_digit ds" by (simp_all add: is_decimal_def)
  then have "ds = butlast ds @ [last ds]" "is_digit (last ds)"
    by (simp_all add: list_all_iff)
  then show ?thesis by (rule that)
qed

lemma digit_not_unit:
  assumes "is_digit d"
  shows "d \<noteq> CHR ''s''" "d \<noteq> CHR ''m''" "d \<noteq> CHR ''h''"
  using assms by (auto simp: is_digit_def)

lemma duration_parts_decimal:
  assumes "is_decimal ds" "u \<in> {[], ''ms'', ''s'', ''m'', ''h''}"
  shows "duration_parts (ds @ u) = (ds, unit_ms u)"
proof -
  from assms(1) obtain ys d where ds: "ds = ys @ [d]" and d: "is_digit d"
    by (rule is_decimal_last)
  note nd = digit_not_unit [OF d]
  consider "u = []" | "u = ''ms''" | "u = ''s''" | "u = ''m''" | "u = ''h''"
    using assms(2) by auto
  then show ?thesis
  proof cases
    case 1
    then show ?thesis
      using nd by (simp add: duration_parts_def ends_with_def ds unit_ms_def)
  next
    case 2
    then show ?thesis
      using nd by (simp add: duration_parts_def ends_with_def ds unit_ms_def)
  next
    case 3
    then show ?thesis
      using nd by (simp add: duration_parts_def ends_with_def ds unit_ms_def)
  next
    case 4
    then show ?thesis
      using nd by (simp add: duration_parts_def ends_with_def ds unit_ms_def)
  next
    case 5
    then show ?thesis
      using nd by (simp add: duration_parts_def ends_with_def ds unit_ms_def)
  qed
qed


lemma sint_eq_unat:
  fixes w :: u32
  assumes "unat w < 2 ^ 31"
  shows "sint w = int (unat w)"
proof -
  have u: "uint w = int (unat w)" by simp
  from assms have "int (unat w) < int (2 ^ 31)" by (simp only: of_nat_less_iff)
  then have "int (unat w) < 2 ^ 31" by (simp del: of_nat_unat)
  then have "uint w < 2 ^ 31" by (simp only: u)
  moreover have "- (2 ^ 31) \<le> uint w" by (rule order_trans [of _ 0]) simp_all
  ultimately have "signed_take_bit 31 (uint w) = uint w"
    by (rule signed_take_bit_int_eq_self [rotated])
  then have "sint w = uint w" by (simp add: sint_uint)
  then show ?thesis by (simp only: u)
qed

definition duration_text :: "u32 \<Rightarrow> string" where
  "duration_text t = (case time_unit t of (q, u) \<Rightarrow> dec (unat q) @ u)"

lemma time_system_to_str_alt:
  "time_system_to_str ts =
     take 63 (duration_text (main_time ts) @ ''+'' @ dec (unat (byo_yomi_periods ts)) @ ''x'' @
              duration_text (byo_yomi_time ts) @ ''/'' @ dec (unat (byo_yomi_stones ts)))"
  by (simp only: time_system_to_str_def duration_text_def Let_def case_prod_beta append_assoc)

lemma str_to_milliseconds_duration_text:
  "str_to_milliseconds_spec (duration_text t) = t"
proof -
  obtain q u where qu: "time_unit t = (q, u)" by (cases "time_unit t")
  from time_unit_value [OF qu]
  have u: "u \<in> {[], ''ms'', ''s'', ''m'', ''h''}" and v: "unat q * unit_ms u = unat t" by simp_all
  have p: "duration_parts (dec (unat q) @ u) = (dec (unat q), unit_ms u)"
    using dec_is_decimal u by (rule duration_parts_decimal)
  have d: "duration_text t = dec (unat q) @ u"
    by (simp only: duration_text_def qu prod.case)
  have "str_to_milliseconds_spec (duration_text t) = word_of_nat (unat q * unit_ms u)"
    by (simp only: str_to_milliseconds_spec_def d p Let_def prod.case dec_is_decimal
        decimal_value_dec if_True)
  also have "\<dots> = t" unfolding v by simp
  finally show ?thesis .
qed

lemma dec_first:
  obtains c cs where "dec n = c # cs" "is_digit c"
proof -
  from dec_is_decimal [of n] have "dec n \<noteq> []" "list_all is_digit (dec n)"
    by (simp_all add: is_decimal_def)
  then have "dec n = hd (dec n) # tl (dec n)" "is_digit (hd (dec n))"
    by (simp_all add: list_all_iff)
  then show ?thesis by (rule that)
qed

lemma parse_int_dec: "parse_int_spec (dec n) = Some (word_of_nat n)"
proof -
  obtain c cs where d: "dec n = c # cs" and c: "is_digit c" by (rule dec_first)
  from c have "c \<noteq> CHR ''-''" by (auto simp: is_digit_def)
  moreover have "is_decimal (c # cs)" "decimal_value (c # cs) = n"
    using dec_is_decimal [of n] decimal_value_dec [of n] by (simp_all add: d)
  ultimately show ?thesis by (simp add: parse_int_spec_def d)
qed

lemma index_cut_append:
  assumes "c \<notin> set a"
  shows "index_cut (a @ c # r) c = Some (a, r)"
proof -
  from assms have "takeWhile (\<lambda>x. x \<noteq> c) (a @ c # r) = a"
    by (induction a) auto
  moreover from assms have "dropWhile (\<lambda>x. x \<noteq> c) (a @ c # r) = c # r"
    by (induction a) auto
  ultimately show ?thesis by (simp add: index_cut_def)
qed

lemma set_dec: "x \<in> set (dec n) \<Longrightarrow> is_digit x"
  using dec_is_decimal [of n] by (simp add: is_decimal_def list_all_iff)

lemma set_duration_text:
  assumes "x \<in> set (duration_text t)"
  shows "is_digit x \<or> x \<in> {CHR ''m'', CHR ''s'', CHR ''h''}"
proof -
  obtain q u where qu: "time_unit t = (q, u)" by (cases "time_unit t")
  from time_unit_value [OF qu] have "u \<in> {[], ''ms'', ''s'', ''m'', ''h''}" by simp
  then have "set u \<subseteq> {CHR ''m'', CHR ''s'', CHR ''h''}" by auto
  with assms show ?thesis by (auto simp: duration_text_def qu dest: set_dec)
qed

lemma separator_not_in_dec:
  "CHR ''+'' \<notin> set (dec n)" "CHR ''x'' \<notin> set (dec n)" "CHR ''/'' \<notin> set (dec n)"
  by (auto dest!: set_dec simp: is_digit_def)

lemma separator_not_in_duration_text:
  "CHR ''+'' \<notin> set (duration_text t)" "CHR ''x'' \<notin> set (duration_text t)"
  "CHR ''/'' \<notin> set (duration_text t)"
  by (auto dest!: set_duration_text simp: is_digit_def)

lemma trim_spec_id:
  assumes "s \<noteq> []" "\<not> is_space (hd s)" "\<not> is_space (last s)"
  shows "trim_spec s = s"
proof -
  from assms(1,2) have a: "dropWhile is_space s = s" by (simp add: dropWhile_eq_self_iff)
  from assms(1,3) have "dropWhile is_space (rev s) = rev s"
    by (simp add: dropWhile_eq_self_iff hd_rev)
  then show ?thesis by (simp add: trim_spec_def a)
qed

lemma digit_not_space: "is_digit c \<Longrightarrow> \<not> is_space c"
  by (auto simp: is_digit_def is_space_def)

lemma length_duration_text: "length (duration_text t) \<le> 12"
proof -
  obtain q u where qu: "time_unit t = (q, u)" by (cases "time_unit t")
  from time_unit_value [OF qu] have "u \<in> {[], ''ms'', ''s'', ''m'', ''h''}" by simp
  then have "length u \<le> 2" by auto
  with length_dec_u32 [of q] show ?thesis by (simp add: duration_text_def qu)
qed


lemma time_system_to_str_untruncated:
  "time_system_to_str ts =
     duration_text (main_time ts) @ CHR ''+'' # dec (unat (byo_yomi_periods ts)) @ CHR ''x'' #
       duration_text (byo_yomi_time ts) @ CHR ''/'' # dec (unat (byo_yomi_stones ts))"
proof -
  have "length (duration_text (main_time ts) @ ''+'' @ dec (unat (byo_yomi_periods ts)) @ ''x'' @
              duration_text (byo_yomi_time ts) @ ''/'' @ dec (unat (byo_yomi_stones ts))) \<le> 63"
    using length_duration_text [of "main_time ts"] length_duration_text [of "byo_yomi_time ts"]
      length_dec_u32 [of "byo_yomi_periods ts"] length_dec_u32 [of "byo_yomi_stones ts"]
    by simp
  then show ?thesis
    unfolding time_system_to_str_alt by (simp only: take_all append_Cons append_Nil)
qed

lemma duration_text_first:
  obtains c cs where "duration_text t = c # cs" "is_digit c"
proof -
  obtain q u where qu: "time_unit t = (q, u)" by (cases "time_unit t")
  obtain c cs where "dec (unat q) = c # cs" "is_digit c" by (rule dec_first)
  then have "duration_text t = c # (cs @ u)" "is_digit c"
    by (simp_all add: duration_text_def qu)
  then show ?thesis by (rule that)
qed

lemma dec_last: "is_digit (last (dec n))"
  using dec_is_decimal [of n] by (simp add: is_decimal_def list_all_iff)

text \<open>
  What the round trip needs of the helpers, for one time system: \<open>trim\<close> leaves the text
  written for it as it is, \<open>str_to_milliseconds\<close> reads the two durations as written
  back to their values, and \<open>parse_int\<close> the two counts.
\<close>

definition helpers_read_back :: "stringm \<Rightarrow> time_system \<Rightarrow> bool" where
  "helpers_read_back h ts \<longleftrightarrow>
     trim h (time_system_to_str ts) = time_system_to_str ts \<and>
     str_to_milliseconds h (duration_text (main_time ts)) = main_time ts \<and>
     str_to_milliseconds h (duration_text (byo_yomi_time ts)) = byo_yomi_time ts \<and>
     parse_int h (dec (unat (byo_yomi_periods ts))) = Some (byo_yomi_periods ts) \<and>
     parse_int h (dec (unat (byo_yomi_stones ts))) = Some (byo_yomi_stones ts)"

lemma parse_canonical:
  assumes helpers: "helpers_read_back h ts"
    and bounds: "unat (main_time ts) < 2 ^ 31" "unat (byo_yomi_time ts) < 2 ^ 31"
      "unat (byo_yomi_periods ts) < 2 ^ 31" "unat (byo_yomi_stones ts) < 2 ^ 31"
    and stones: "byo_yomi_stones ts \<noteq> 0"
    and len: "9 \<le> length (time_system_to_str ts)"
  shows "str_to_time_system h True (Some (time_system_to_str ts)) dst =
     (True, dst\<lparr>main_time := main_time ts, byo_yomi_stones := byo_yomi_stones ts,
              byo_yomi_time := byo_yomi_time ts, byo_yomi_periods := byo_yomi_periods ts\<rparr>)"
proof -
  define A where "A = duration_text (main_time ts)"
  define P where "P = dec (unat (byo_yomi_periods ts))"
  define B where "B = duration_text (byo_yomi_time ts)"
  define S where "S = dec (unat (byo_yomi_stones ts))"
  define r1 where "r1 = P @ CHR ''x'' # B @ CHR ''/'' # S"
  define r2 where "r2 = B @ CHR ''/'' # S"
  have s: "time_system_to_str ts = A @ CHR ''+'' # r1"
    by (simp only: time_system_to_str_untruncated A_def P_def B_def S_def r1_def)
  from helpers have "trim h (time_system_to_str ts) = time_system_to_str ts"
    and msA: "str_to_milliseconds h A = main_time ts"
    and msB: "str_to_milliseconds h B = byo_yomi_time ts"
    and piP: "parse_int h P = Some (byo_yomi_periods ts)"
    and piS: "parse_int h S = Some (byo_yomi_stones ts)"
    by (simp_all only: helpers_read_back_def A_def B_def P_def S_def)
  then have trim: "trim h (A @ CHR ''+'' # r1) = A @ CHR ''+'' # r1"
    by (simp only: s)
  have cut1: "index_cut (A @ CHR ''+'' # r1) CHR ''+'' = Some (A, r1)"
    by (rule index_cut_append) (simp add: A_def separator_not_in_duration_text)
  have cut2: "index_cut r1 CHR ''x'' = Some (P, r2)"
    unfolding r1_def r2_def by (rule index_cut_append) (simp add: P_def separator_not_in_dec)
  have cut3: "index_cut r2 CHR ''/'' = Some (B, S)"
    unfolding r2_def by (rule index_cut_append) (simp add: B_def separator_not_in_duration_text)
  have sg: "\<not> sint (main_time ts) < 0" "\<not> sint (byo_yomi_time ts) < 0"
    "\<not> sint (byo_yomi_periods ts) < 0"
    using bounds by (simp_all add: sint_eq_unat del: of_nat_unat)
  from stones have "0 < unat (byo_yomi_stones ts)" by (simp add: unat_gt_0)
  then have sg1: "\<not> sint (byo_yomi_stones ts) < 1"
    using bounds(4) by (simp add: sint_eq_unat del: of_nat_unat)
  from len have len': "\<not> length (A @ CHR ''+'' # r1) < 9" by (simp only: s not_less)
  show ?thesis
    unfolding s str_to_time_system_def
    by (simp only: option.case len' trim cut1 cut2 cut3
        msA msB piP piS sg sg1 Let_def prod.case if_False if_True not_True_eq_False not_not)
qed

text \<open>The helpers modelled from the spec do read back what is written, for every time system.\<close>

lemma stringm_spec_reads_back: "helpers_read_back stringm_spec ts"
proof -
  obtain c cs where A: "duration_text (main_time ts) = c # cs" "is_digit c"
    by (rule duration_text_first)
  have "dec (unat (byo_yomi_stones ts)) \<noteq> []"
    using dec_is_decimal [of "unat (byo_yomi_stones ts)"] by (simp add: is_decimal_def)
  then have "last (time_system_to_str ts) = last (dec (unat (byo_yomi_stones ts)))"
    by (simp add: time_system_to_str_untruncated)
  then have "\<not> is_space (last (time_system_to_str ts))"
    by (simp add: dec_last digit_not_space)
  moreover have "\<not> is_space (hd (time_system_to_str ts))"
    using A by (simp add: time_system_to_str_untruncated digit_not_space)
  moreover have "time_system_to_str ts \<noteq> []"
    by (simp add: time_system_to_str_untruncated)
  ultimately have "trim_spec (time_system_to_str ts) = time_system_to_str ts"
    by (intro trim_spec_id)
  then show ?thesis
    by (simp add: helpers_read_back_def stringm_spec_def str_to_milliseconds_duration_text
        parse_int_dec)
qed

lemma time_system_to_str_cong:
  assumes "main_time a = main_time b" "byo_yomi_time a = byo_yomi_time b"
    "byo_yomi_periods a = byo_yomi_periods b" "byo_yomi_stones a = byo_yomi_stones b"
  shows "time_system_to_str a = time_system_to_str b"
  by (simp only: time_system_to_str_def assms)

text \<open>
  Claim C4, as amended. A canonical text is what \<open>time_system_to_str\<close> writes for a
  time system; the values are below \<open>2^31\<close> (they go through an \<open>s32\<close>) and the stone
  count is not 0. If the text has at least 9 characters and the helpers read its parts
  back, \<open>str_to_time_system\<close> accepts it, stores the four values, and writing the result
  gives the text back.
\<close>

theorem format_parse_roundtrip:
  assumes canonical: "s = time_system_to_str ts"
    and helpers: "helpers_read_back h ts"
    and bounds: "unat (main_time ts) < 2 ^ 31" "unat (byo_yomi_time ts) < 2 ^ 31"
      "unat (byo_yomi_periods ts) < 2 ^ 31" "unat (byo_yomi_stones ts) < 2 ^ 31"
    and stones: "byo_yomi_stones ts \<noteq> 0"
    and len: "9 \<le> length s"
  shows "fst (str_to_time_system h True (Some s) dst) \<and>
    time_system_to_str (snd (str_to_time_system h True (Some s) dst)) = s \<and>
    main_time (snd (str_to_time_system h True (Some s) dst)) = main_time ts \<and>
    byo_yomi_periods (snd (str_to_time_system h True (Some s) dst)) = byo_yomi_periods ts \<and>
    byo_yomi_time (snd (str_to_time_system h True (Some s) dst)) = byo_yomi_time ts \<and>
    byo_yomi_stones (snd (str_to_time_system h True (Some s) dst)) = byo_yomi_stones ts"
proof -
  from len have "9 \<le> length (time_system_to_str ts)" by (simp only: canonical)
  from parse_canonical [OF helpers bounds stones this, of dst]
  have p: "str_to_time_system h True (Some s) dst =
     (True, dst\<lparr>main_time := main_time ts, byo_yomi_stones := byo_yomi_stones ts,
              byo_yomi_time := byo_yomi_time ts, byo_yomi_periods := byo_yomi_periods ts\<rparr>)"
    by (simp only: canonical)
  have "time_system_to_str (dst\<lparr>main_time := main_time ts, byo_yomi_stones := byo_yomi_stones ts,
              byo_yomi_time := byo_yomi_time ts, byo_yomi_periods := byo_yomi_periods ts\<rparr>) = s"
    unfolding canonical by (rule time_system_to_str_cong) simp_all
  then show ?thesis by (simp add: p)
qed

theorem format_parse_roundtrip_witness:
  "time_system_to_str
     (snd (str_to_time_system stringm_spec True (Some ''5m+5x30s/1'') zero_time_system)) =
   ''5m+5x30s/1'' \<and>
   main_time (snd (str_to_time_system stringm_spec True (Some ''5m+5x30s/1'') zero_time_system)) =
   300000"
proof -
  have f: "''5m+5x30s/1'' = time_system_to_str (set_time_system zero_time_system 300000 30000 1 5)"
    by (simp add: format_eval set_time_system_def)
  have b: "unat (main_time (set_time_system zero_time_system 300000 30000 1 5)) < 2 ^ 31"
    "unat (byo_yomi_time (set_time_system zero_time_system 300000 30000 1 5)) < 2 ^ 31"
    "unat (byo_yomi_periods (set_time_system zero_time_system 300000 30000 1 5)) < 2 ^ 31"
    "unat (byo_yomi_stones (set_time_system zero_time_system 300000 30000 1 5)) < 2 ^ 31"
    "byo_yomi_stones (set_time_system zero_time_system 300000 30000 1 5) \<noteq> 0"
    by (simp_all add: set_time_system_def)
  have l: "9 \<le> length ''5m+5x30s/1''" by simp
  from format_parse_roundtrip [OF f stringm_spec_reads_back b l, of zero_time_system]
  show ?thesis by (simp add: set_time_system_def)
qed

text \<open>
  The spec's own example is not canonical: 300 s is 5 min, and \<open>time_system_to_str\<close>
  prefers the minutes. Reading \<open>300s+5x30s/1\<close> gives the four values of the spec, and
  writing them gives \<open>5m+5x30s/1\<close>. And a canonical text of fewer than 9 characters
  (\<open>0+1x1s/1\<close>, written for no main time and one period of 1 s for 1 stone) is rejected,
  whatever the helpers are.
\<close>

theorem spec_example_counterexample:
  "snd (str_to_time_system stringm_spec True (Some ''300s+5x30s/1'') zero_time_system) =
     zero_time_system\<lparr>main_time := 300000, byo_yomi_stones := 1, byo_yomi_time := 30000,
       byo_yomi_periods := 5\<rparr> \<and>
   time_system_to_str
     (snd (str_to_time_system stringm_spec True (Some ''300s+5x30s/1'') zero_time_system)) =
     ''5m+5x30s/1'' \<and>
   time_system_to_str
     (snd (str_to_time_system stringm_spec True (Some ''300s+5x30s/1'') zero_time_system)) \<noteq>
     ''300s+5x30s/1'' \<and>
   time_system_to_str (set_time_system zero_time_system 0 1000 1 1) = ''0+1x1s/1'' \<and>
   \<not> fst (str_to_time_system stringm_spec True (Some ''0+1x1s/1'') zero_time_system)"
proof -
  have p: "str_to_time_system stringm_spec True (Some ''300s+5x30s/1'') zero_time_system =
     (True, zero_time_system\<lparr>main_time := 300000, byo_yomi_stones := 1, byo_yomi_time := 30000,
       byo_yomi_periods := 5\<rparr>)"
    by (simp add: parse_eval)
  have f: "time_system_to_str (zero_time_system\<lparr>main_time := 300000, byo_yomi_stones := 1,
       byo_yomi_time := 30000, byo_yomi_periods := 5\<rparr>) = ''5m+5x30s/1''"
    by (simp add: format_eval)
  have g: "time_system_to_str (set_time_system zero_time_system 0 1000 1 1) = ''0+1x1s/1''"
    by (simp add: format_eval set_time_system_def)
  have h: "\<not> fst (str_to_time_system stringm_spec True (Some ''0+1x1s/1'') zero_time_system)"
    by (simp add: str_to_time_system_def)
  show ?thesis by (simp add: p f g h)
qed


end
